theory Spec2Isabelle
  imports Main "HOL-Library.Sublist" "HOL-Library.Char_ord" "HOL-Library.List_Lexorder"
begin

section \<open>Exceptions\<close>

text \<open>
  The module raises a single exception class, \<^verbatim>\<open>ClipperError\<close>, told apart only by its
  message. A failing function of the model returns \<open>Inl\<close> of the exception, a returning one
  \<open>Inr\<close> of its value. \<open>OSError\<close> stands for the one library exception the model keeps:
  \<^verbatim>\<open>Path.mkdir\<close> meeting a regular file.
\<close>

datatype exn = ClipperError string | OSError

definition InvalidTimestamp :: exn where
  "InvalidTimestamp = ClipperError ''Timestamps must be whole seconds (e.g., 120).''"

definition NegativeTimestamp :: exn where
  "NegativeTimestamp = ClipperError ''Timestamps must be non-negative.''"

definition NoRangesProvided :: exn where
  "NoRangesProvided = ClipperError ''No clip ranges provided.''"

definition MalformedRange :: "string \<Rightarrow> exn" where
  "MalformedRange item = ClipperError
     (''Invalid clip range '' @ [CHR 0x27] @ item @ [CHR 0x27] @
      ''. Use the format start-end, e.g., 10-30.'')"

definition NonPositiveDuration :: exn where
  "NonPositiveDuration = ClipperError ''Clip end must be greater than start.''"

section \<open>Python strings and integers\<close>

text \<open>
  A Python \<^verbatim>\<open>str\<close> is modelled as a \<open>string\<close> whose characters are the code points
  below 256. Among these, \<^verbatim>\<open>str.isspace\<close> holds of the ten control and blank
  characters below, and the only decimal digits are \<open>0\<close> to \<open>9\<close>. Python integers are
  unbounded (\<open>int\<close>), but \<^verbatim>\<open>int()\<close> refuses a text with more digits than the interpreter's
  limit, which is 4300 unless the host changes it (the program does not).
\<close>

definition int_max_str_digits :: nat where
  "int_max_str_digits = 4300"

definition is_space :: "char \<Rightarrow> bool" where
  "is_space c = (of_char c \<in> {9, 10, 11, 12, 13, 28, 29, 30, 31, 32, 133, 160 :: nat})"

definition strip :: "string \<Rightarrow> string" where
  "strip s = rev (dropWhile is_space (rev (dropWhile is_space s)))"

definition is_digit :: "char \<Rightarrow> bool" where
  "is_digit c = (48 \<le> (of_char c :: nat) \<and> (of_char c :: nat) \<le> 57)"

definition digit_val :: "char \<Rightarrow> nat" where
  "digit_val c = of_char c - 48"

text \<open>
  \<^verbatim>\<open>int(text)\<close> at base 10: surrounding whitespace, one optional sign, then digits, where a
  single underscore may stand between two digits, and at most \<open>int_max_str_digits\<close> digits,
  leading zeros counted. \<open>None\<close> is \<^verbatim>\<open>ValueError\<close>.
\<close>

fun digits_acc :: "nat \<Rightarrow> string \<Rightarrow> nat option" where
  "digits_acc acc [] = Some acc"
| "digits_acc acc [c] = (if is_digit c then Some (10 * acc + digit_val c) else None)"
| "digits_acc acc (c # d # cs) =
     (if c = CHR ''_'' then
        (if is_digit d then digits_acc (10 * acc + digit_val d) cs else None)
      else if is_digit c then digits_acc (10 * acc + digit_val c) (d # cs)
      else None)"

definition unsigned_int :: "string \<Rightarrow> nat option" where
  "unsigned_int s =
     (case s of [] \<Rightarrow> None
      | c # cs \<Rightarrow>
          if is_digit c \<and> length (filter is_digit s) \<le> int_max_str_digits
          then digits_acc (digit_val c) cs else None)"

definition py_int :: "string \<Rightarrow> int option" where
  "py_int text =
     (case strip text of
        [] \<Rightarrow> None
      | c # cs \<Rightarrow>
          if c = CHR ''-'' then map_option (\<lambda>n. - int n) (unsigned_int cs)
          else if c = CHR ''+'' then map_option int (unsigned_int cs)
          else map_option int (unsigned_int (c # cs)))"

text \<open>\<^verbatim>\<open>str(n)\<close> of an integer: its decimal digits, after a minus sign when negative.\<close>

definition digit_char :: "nat \<Rightarrow> char" where
  "digit_char d = char_of (48 + d)"

fun str_nat :: "nat \<Rightarrow> string" where
  "str_nat n = (if n < 10 then [digit_char n] else str_nat (n div 10) @ [digit_char (n mod 10)])"

declare str_nat.simps [simp del]

definition str_int :: "int \<Rightarrow> string" where
  "str_int i = (if i < 0 then CHR ''-'' # str_nat (nat (- i)) else str_nat (nat i))"

text \<open>\<^verbatim>\<open>text.split(sep)\<close> with a one-character separator: empty pieces are kept.\<close>

fun str_split :: "char \<Rightarrow> string \<Rightarrow> string list" where
  "str_split sep [] = [[]]"
| "str_split sep (c # cs) =
     (let rest = str_split sep cs
      in if c = sep then [] # rest else (c # hd rest) # tl rest)"

text \<open>
  \<^verbatim>\<open>text.split(sep, 1)\<close> for a text that contains the separator: the part before its first
  occurrence and the part after it.
\<close>

definition split_first :: "char \<Rightarrow> string \<Rightarrow> string \<times> string" where
  "split_first sep s = (takeWhile (\<lambda>c. c \<noteq> sep) s, tl (dropWhile (\<lambda>c. c \<noteq> sep) s))"

text \<open>\<^verbatim>\<open>sep.join(parts)\<close>.\<close>

fun str_join :: "string \<Rightarrow> string list \<Rightarrow> string" where
  "str_join sep [] = []"
| "str_join sep [x] = x"
| "str_join sep (x # y # ys) = x @ sep @ str_join sep (y # ys)"

section \<open>Parsing times and clip ranges\<close>

definition parse_time :: "string \<Rightarrow> exn + int" where
  "parse_time text =
     (let v = strip text
      in if CHR '':'' \<in> set v then Inl InvalidTimestamp
         else case py_int v of
                None \<Rightarrow> Inl InvalidTimestamp
              | Some seconds \<Rightarrow>
                  if seconds < 0 then Inl NegativeTimestamp else Inr seconds)"

definition validate_range :: "int \<Rightarrow> int \<Rightarrow> exn + unit" where
  "validate_range start end = (if end \<le> start then Inl NonPositiveDuration else Inr ())"

text \<open>The \<^verbatim>\<open>for item in items\<close> loop of \<^verbatim>\<open>parse_clip_ranges\<close>, with its list \<open>parsed\<close>.\<close>

fun parse_items :: "string list \<Rightarrow> (int \<times> int) list \<Rightarrow> exn + (int \<times> int) list" where
  "parse_items [] parsed = Inr parsed"
| "parse_items (item # items) parsed =
     (if CHR ''-'' \<notin> set item then Inl (MalformedRange item)
      else
        let (start_text, end_text) = split_first (CHR ''-'') item
        in case parse_time start_text of
             Inl e \<Rightarrow> Inl e
           | Inr start \<Rightarrow>
               (case parse_time end_text of
                  Inl e \<Rightarrow> Inl e
                | Inr end \<Rightarrow>
                    (case validate_range start end of
                       Inl e \<Rightarrow> Inl e
                     | Inr _ \<Rightarrow> parse_items items (parsed @ [(start, end)]))))"

definition range_items :: "string \<Rightarrow> string list" where
  "range_items ranges = filter (\<lambda>item. item \<noteq> []) (map strip (str_split (CHR '','') ranges))"

definition parse_clip_ranges :: "string \<Rightarrow> exn + (int \<times> int) list" where
  "parse_clip_ranges ranges =
     (let items = range_items ranges
      in if items = [] then Inl NoRangesProvided else parse_items items [])"

section \<open>The outside world\<close>

text \<open>
  A \<^verbatim>\<open>Path\<close> is the list of its components; \<open>joinpath\<close> is the operator \<^verbatim>\<open>/\<close> with a
  file name on the right, taken as one component; \<open>str_path\<close> is \<^verbatim>\<open>str(path)\<close>. Two paths
  are the same file exactly when they are the same list: links, \<^verbatim>\<open>..\<close> and a slash inside
  a name are not modelled. The file system lists what exists, a directory or a file with
  its content.
\<close>

type_synonym path = "string list"

datatype node = Dir | File string

type_synonym fsys = "(path \<times> node) list"

definition joinpath :: "path \<Rightarrow> string \<Rightarrow> path" where
  "joinpath p name = p @ [name]"

definition str_path :: "path \<Rightarrow> string" where
  "str_path p = str_join ''/'' p"

definition path_exists :: "fsys \<Rightarrow> path \<Rightarrow> bool" where
  "path_exists fs p = (p \<in> set (map fst fs))"

text \<open>
  \<^verbatim>\<open>path.suffix\<close>: the last component from its last dot on, when that dot is neither its
  first nor its last character; and \<^verbatim>\<open>text.lstrip(".")\<close>.
\<close>

definition path_suffix :: "path \<Rightarrow> string" where
  "path_suffix p =
     (let name = (if p = [] then [] else last p);
          after = rev (takeWhile (\<lambda>c. c \<noteq> CHR ''.'') (rev name))
      in if CHR ''.'' \<in> set name \<and> length after + 1 < length name \<and> after \<noteq> []
         then CHR ''.'' # after else [])"

definition lstrip_dot :: "string \<Rightarrow> string" where
  "lstrip_dot s = dropWhile (\<lambda>c. c = CHR ''.'') s"

text \<open>
  What the program does to the world is recorded in order: a process it runs (with its
  argument list), and the directories it creates and removes.
\<close>

datatype effect = Exec "string list" | MkdirP path | Mkdtemp path | Rmtree path

text \<open>
  The world: the file system, everything else that the external tools see and change
  (\<open>outside\<close>: network, clock, the tools' own state), and the effects so far.
\<close>

record 'e world =
  files :: fsys
  outside :: 'e
  trace :: "effect list"

text \<open>
  The metadata document of the retrieval engine: a list \<^verbatim>\<open>formats\<close> (absent: \<open>None\<close>) of
  entries with an optional integer \<^verbatim>\<open>height\<close>, an optional \<^verbatim>\<open>vcodec\<close> and an optional
  \<^verbatim>\<open>ext\<close>; an absent key and \<^verbatim>\<open>null\<close> both read as \<open>None\<close> through \<^verbatim>\<open>dict.get\<close>.
\<close>

record fmt =
  height :: "int option"
  vcodec :: "string option"
  ext :: "string option"

record document =
  formats :: "fmt list option"

text \<open>
  What the host gives the program: \<open>which name\<close> says whether \<^verbatim>\<open>shutil.which(name)\<close> finds
  the tool; \<open>now_stamp\<close> is \<^verbatim>\<open>datetime.now().strftime("%Y%m%d_%H%M%S_%f")\<close>; \<open>temp_name\<close> is
  the random part of the name \<^verbatim>\<open>tempfile\<close> settles on; \<open>run\<close> is \<^verbatim>\<open>subprocess.run\<close> of an
  argument list: whether the exit status is zero, the output it printed, and what it did to
  the file system and the rest of the world; \<open>json_loads\<close> is \<^verbatim>\<open>json.loads\<close>, \<open>None\<close> for
  \<^verbatim>\<open>JSONDecodeError\<close>.
\<close>

record 'e env =
  which :: "string \<Rightarrow> bool"
  now_stamp :: string
  temp_name :: string
  run :: "string list \<Rightarrow> fsys \<times> 'e \<Rightarrow> (bool \<times> string) \<times> fsys \<times> 'e"
  json_loads :: "string \<Rightarrow> document option"

definition subprocess_run :: "'e env \<Rightarrow> string list \<Rightarrow> 'e world \<Rightarrow> (bool \<times> string) \<times> 'e world" where
  "subprocess_run env cmd w =
     (let (res, fs', x') = run env cmd (files w, outside w)
      in (res, \<lparr>files = fs', outside = x', trace = trace w @ [Exec cmd]\<rparr>))"

text \<open>
  \<^verbatim>\<open>outdir.mkdir(parents=True, exist_ok=True)\<close>: fails when the path or one of its ancestors is
  a regular file; otherwise the path and its missing ancestors become directories.
\<close>

definition is_file :: "fsys \<Rightarrow> path \<Rightarrow> bool" where
  "is_file fs p = (case map_of fs p of Some (File c) \<Rightarrow> True | _ \<Rightarrow> False)"

definition ancestors :: "path \<Rightarrow> path list" where
  "ancestors p = map (\<lambda>n. take n p) [1..<Suc (length p)]"

definition mkdir_p :: "path \<Rightarrow> 'e world \<Rightarrow> (exn + unit) \<times> 'e world" where
  "mkdir_p p w =
     (let w' = w\<lparr>trace := trace w @ [MkdirP p]\<rparr>
      in if list_ex (is_file (files w)) (ancestors p) then (Inl OSError, w')
         else (Inr (),
               w'\<lparr>files := files w @
                  map (\<lambda>a. (a, Dir)) (filter (\<lambda>a. \<not> path_exists (files w) a) (ancestors p))\<rparr>))"

text \<open>
  \<^verbatim>\<open>tempfile.TemporaryDirectory(prefix="youtubeclipper_", dir=outdir)\<close> on entry, and its
  clean-up on exit: everything at or below the directory goes.
\<close>

definition mkdtemp :: "'e env \<Rightarrow> path \<Rightarrow> 'e world \<Rightarrow> path \<times> 'e world" where
  "mkdtemp env outdir w =
     (let tmp = joinpath outdir (''youtubeclipper_'' @ temp_name env)
      in (tmp, w\<lparr>files := (tmp, Dir) # files w, trace := trace w @ [Mkdtemp tmp]\<rparr>))"

definition rmtree :: "path \<Rightarrow> 'e world \<Rightarrow> 'e world" where
  "rmtree tmp w =
     w\<lparr>files := filter (\<lambda>entry. \<not> prefix tmp (fst entry)) (files w),
       trace := trace w @ [Rmtree tmp]\<rparr>"

text \<open>\<^verbatim>\<open>sorted(workdir.glob("source.*"))\<close>: the children of the directory whose name begins
  with \<^verbatim>\<open>source.\<close>, in ascending order.\<close>

definition glob_source :: "path \<Rightarrow> fsys \<Rightarrow> path list" where
  "glob_source workdir fs =
     sort (remdups (filter (\<lambda>p. p \<noteq> [] \<and> butlast p = workdir \<and> prefix ''source.'' (last p))
                      (map fst fs)))"

section \<open>Errors of the pipeline\<close>

definition MissingDependency :: "string list \<Rightarrow> exn" where
  "MissingDependency missing =
     ClipperError (''Missing dependencies on PATH: '' @ str_join '', '' missing @ ''.'')"

definition InvalidQuality :: exn where
  "InvalidQuality = ClipperError ''Quality height must be a positive integer.''"

definition MetadataFetchFailed :: exn where
  "MetadataFetchFailed = ClipperError ''Failed to inspect available formats with yt-dlp.''"

definition MetadataParseFailed :: exn where
  "MetadataParseFailed = ClipperError ''Failed to parse format data from yt-dlp.''"

text \<open>\<^verbatim>\<open>", ".join(str(h) for h in heights) or "none"\<close>.\<close>

definition heights_text :: "int list \<Rightarrow> string" where
  "heights_text hs = (let t = str_join '', '' (map str_int hs) in if t = [] then ''none'' else t)"

definition QualityUnavailable :: "int \<Rightarrow> int list \<Rightarrow> exn" where
  "QualityUnavailable quality_height available =
     ClipperError (''Requested '' @ str_int quality_height @ ''p is not available. '' @
       ''Available video heights: '' @ heights_text available @ ''. '' @
       ''Use --height to pick one of the available heights.'')"

definition QualityUnavailableFastPath :: "int \<Rightarrow> int list \<Rightarrow> int list \<Rightarrow> exn" where
  "QualityUnavailableFastPath quality_height available all_heights =
     ClipperError (''Requested '' @ str_int quality_height @ ''p is not available for fast clipping. '' @
       ''Available H.264 MP4 heights: '' @ heights_text available @ ''. '' @
       ''Other video heights: '' @ heights_text all_heights @ ''. '' @
       ''Use --height to choose an available H.264 MP4 height, or '' @
       ''try --reencode for non-H.264 sources.'')"

definition DownloadFailed :: exn where
  "DownloadFailed = ClipperError ''Failed to download video with yt-dlp.''"

definition NoSourceFileProduced :: exn where
  "NoSourceFileProduced = ClipperError ''Download succeeded but no source file was found.''"

definition OutputFormatMismatch :: "string \<Rightarrow> string \<Rightarrow> exn" where
  "OutputFormatMismatch source_format output_format =
     ClipperError (''Source format '' @ [CHR 0x27] @ source_format @ [CHR 0x27] @ '' does not match '' @
       ''output '' @ [CHR 0x27] @ output_format @ [CHR 0x27] @
       ''. Use --reencode or choose a matching --format.'')"

definition OutputAlreadyExists :: "path \<Rightarrow> exn" where
  "OutputAlreadyExists output_path = ClipperError (''Output already exists: '' @ str_path output_path)"

definition ExtractionFailed :: exn where
  "ExtractionFailed = ClipperError ''ffmpeg failed while generating clip.''"

section \<open>The pipeline\<close>

definition ensure_dependencies :: "'e env \<Rightarrow> exn + unit" where
  "ensure_dependencies env =
     (let missing = filter (\<lambda>name. \<not> which env name) [''ffmpeg'', ''yt-dlp'']
      in if missing \<noteq> [] then Inl (MissingDependency missing) else Inr ())"

definition run_command :: "'e env \<Rightarrow> string list \<Rightarrow> exn \<Rightarrow> 'e world \<Rightarrow> (exn + unit) \<times> 'e world" where
  "run_command env cmd error w =
     (let ((ok, out), w') = subprocess_run env cmd w
      in (if ok then Inr () else Inl error, w'))"

definition download_cmd :: "string \<Rightarrow> path \<Rightarrow> string \<Rightarrow> string option \<Rightarrow> string list" where
  "download_cmd url workdir format_selector merge_output_format =
     [''yt-dlp'', ''-f'', format_selector, ''-o'', str_path (joinpath workdir ''source.%(ext)s''),
      ''--no-playlist''] @
     (case merge_output_format of
        None \<Rightarrow> []
      | Some m \<Rightarrow> if m = [] then [] else [''--merge-output-format'', m]) @
     [url]"

definition download_source ::
  "'e env \<Rightarrow> string \<Rightarrow> path \<Rightarrow> string \<Rightarrow> string option \<Rightarrow> 'e world \<Rightarrow> (exn + path) \<times> 'e world" where
  "download_source env url workdir format_selector merge_output_format w =
     (case run_command env (download_cmd url workdir format_selector merge_output_format)
             DownloadFailed w of
        (Inl e, w') \<Rightarrow> (Inl e, w')
      | (Inr _, w') \<Rightarrow>
          (case glob_source workdir (files w') of
             [] \<Rightarrow> (Inl NoSourceFileProduced, w')
           | candidate # _ \<Rightarrow> (Inr candidate, w')))"

definition inspect_cmd :: "string \<Rightarrow> string list" where
  "inspect_cmd url = [''yt-dlp'', ''-J'', ''--no-warnings'', ''--no-playlist'', url]"

definition inspect_formats :: "'e env \<Rightarrow> string \<Rightarrow> 'e world \<Rightarrow> (exn + document) \<times> 'e world" where
  "inspect_formats env url w =
     (let ((ok, out), w') = subprocess_run env (inspect_cmd url) w
      in if \<not> ok then (Inl MetadataFetchFailed, w')
         else case json_loads env out of
                None \<Rightarrow> (Inl MetadataParseFailed, w')
              | Some data \<Rightarrow> (Inr data, w'))"

text \<open>The \<^verbatim>\<open>for fmt in formats\<close> loop of \<^verbatim>\<open>_available_heights\<close>, with its two sets.\<close>

fun heights_loop :: "fmt list \<Rightarrow> int set \<times> int set \<Rightarrow> int set \<times> int set" where
  "heights_loop [] (h264_mp4, all_video) = (h264_mp4, all_video)"
| "heights_loop (f # fs) (h264_mp4, all_video) =
     (if height f = None \<or> height f = Some 0 \<or> vcodec f = None \<or> vcodec f = Some ''none''
      then heights_loop fs (h264_mp4, all_video)
      else
        let all_video' = insert (the (height f)) all_video
        in if ext f \<noteq> Some ''mp4'' then heights_loop fs (h264_mp4, all_video')
           else if prefix ''avc1'' (the (vcodec f))
                then heights_loop fs (insert (the (height f)) h264_mp4, all_video')
                else heights_loop fs (h264_mp4, all_video'))"

definition classify_heights :: "document \<Rightarrow> int list \<times> int list" where
  "classify_heights data =
     (let fs = (case formats data of None \<Rightarrow> [] | Some l \<Rightarrow> l);
          (h264_mp4, all_video) = heights_loop fs ({}, {})
      in (sorted_list_of_set h264_mp4, sorted_list_of_set all_video))"

definition available_heights ::
  "'e env \<Rightarrow> string \<Rightarrow> 'e world \<Rightarrow> (exn + int list \<times> int list) \<times> 'e world" where
  "available_heights env url w =
     (case inspect_formats env url w of
        (Inl e, w') \<Rightarrow> (Inl e, w')
      | (Inr data, w') \<Rightarrow> (Inr (classify_heights data), w'))"

definition format_selector :: "int \<Rightarrow> bool \<Rightarrow> string \<times> string option" where
  "format_selector h reencode =
     (if reencode
      then (''bv*[height='' @ str_int h @ '']+ba/b[height='' @ str_int h @ '']'', None)
      else (''bv*[vcodec^=avc1][ext=mp4][height='' @ str_int h @ '']'' @
            ''+ba[acodec^=mp4a]/b[ext=mp4][height='' @ str_int h @ '']'', Some ''mp4''))"

definition ffmpeg_cmd :: "path \<Rightarrow> int \<Rightarrow> int \<Rightarrow> path \<Rightarrow> bool \<Rightarrow> string list" where
  "ffmpeg_cmd source start end output_path reencode =
     (let duration = end - start
      in if reencode
         then [''ffmpeg'', ''-hide_banner'', ''-n'', ''-i'', str_path source, ''-ss'', str_int start,
               ''-t'', str_int duration, ''-c:v'', ''libx264'', ''-c:a'', ''aac'',
               ''-movflags'', ''+faststart'', str_path output_path]
         else [''ffmpeg'', ''-hide_banner'', ''-n'', ''-ss'', str_int start, ''-i'', str_path source,
               ''-t'', str_int duration, ''-c'', ''copy'', str_path output_path])"

definition run_ffmpeg ::
  "'e env \<Rightarrow> path \<Rightarrow> int \<Rightarrow> int \<Rightarrow> path \<Rightarrow> bool \<Rightarrow> 'e world \<Rightarrow> (exn + unit) \<times> 'e world" where
  "run_ffmpeg env source start end output_path reencode w =
     (if path_exists (files w) output_path then (Inl (OutputAlreadyExists output_path), w)
      else run_command env (ffmpeg_cmd source start end output_path reencode) ExtractionFailed w)"

definition clip_path :: "path \<Rightarrow> string \<Rightarrow> string \<Rightarrow> int \<times> int \<Rightarrow> path" where
  "clip_path outdir run_stamp output_format r =
     joinpath outdir (''clip_'' @ str_int (fst r) @ ''_'' @ str_int (snd r) @ ''_'' @ run_stamp @
                      ''.'' @ output_format)"

text \<open>The \<^verbatim>\<open>for start, end in ranges\<close> loop of \<^verbatim>\<open>clip_url\<close>, with its list \<open>outputs\<close>.\<close>

fun clip_loop ::
  "'e env \<Rightarrow> path \<Rightarrow> path \<Rightarrow> string \<Rightarrow> string \<Rightarrow> bool \<Rightarrow> (int \<times> int) list \<Rightarrow> path list \<Rightarrow>
   'e world \<Rightarrow> (exn + path list) \<times> 'e world" where
  "clip_loop env source outdir run_stamp output_format reencode [] outputs w = (Inr outputs, w)"
| "clip_loop env source outdir run_stamp output_format reencode (r # ranges) outputs w =
     (let output_path = clip_path outdir run_stamp output_format r
      in case run_ffmpeg env source (fst r) (snd r) output_path reencode w of
           (Inl e, w') \<Rightarrow> (Inl e, w')
         | (Inr _, w') \<Rightarrow>
             clip_loop env source outdir run_stamp output_format reencode ranges
               (outputs @ [output_path]) w')"

text \<open>The body of the \<^verbatim>\<open>with\<close> statement of \<^verbatim>\<open>clip_url\<close>.\<close>

definition clip_url_body ::
  "'e env \<Rightarrow> string \<Rightarrow> (int \<times> int) list \<Rightarrow> path \<Rightarrow> bool \<Rightarrow> string \<Rightarrow> int \<Rightarrow> path \<Rightarrow>
   'e world \<Rightarrow> (exn + path list) \<times> 'e world" where
  "clip_url_body env url ranges outdir reencode output_format quality_height workdir w =
     (let run_stamp = now_stamp env
      in case available_heights env url w of
           (Inl e, w1) \<Rightarrow> (Inl e, w1)
         | (Inr (h264_mp4, all_heights), w1) \<Rightarrow>
             let available = (if reencode then all_heights else h264_mp4)
             in if quality_height \<notin> set available then
                  (if reencode then (Inl (QualityUnavailable quality_height available), w1)
                   else (Inl (QualityUnavailableFastPath quality_height available all_heights), w1))
                else
                  let (selector, merge_format) = format_selector quality_height reencode
                  in case download_source env url workdir selector merge_format w1 of
                       (Inl e, w2) \<Rightarrow> (Inl e, w2)
                     | (Inr source, w2) \<Rightarrow>
                         if \<not> reencode \<and> lstrip_dot (path_suffix source) \<noteq> output_format
                         then (Inl (OutputFormatMismatch (lstrip_dot (path_suffix source))
                                      output_format), w2)
                         else clip_loop env source outdir run_stamp output_format reencode
                                ranges [] w2)"

definition clip_url ::
  "'e env \<Rightarrow> string \<Rightarrow> (int \<times> int) list \<Rightarrow> path \<Rightarrow> bool \<Rightarrow> string \<Rightarrow> int \<Rightarrow>
   'e world \<Rightarrow> (exn + path list) \<times> 'e world" where
  "clip_url env url ranges outdir reencode output_format quality_height w =
     (case ensure_dependencies env of
        Inl e \<Rightarrow> (Inl e, w)
      | Inr _ \<Rightarrow>
          if quality_height \<le> 0 then (Inl InvalidQuality, w)
          else case mkdir_p outdir w of
                 (Inl e, w1) \<Rightarrow> (Inl e, w1)
               | (Inr _, w1) \<Rightarrow>
                   let (tmp, w2) = mkdtemp env outdir w1;
                       (res, w3) = clip_url_body env url ranges outdir reencode output_format
                                     quality_height tmp w2
                   in (res, rmtree tmp w3))"

declare parse_items.simps(2) [simp del]

text \<open>The text \<^verbatim>\<open>"a-b"\<close> of a range, each bound written by \<^verbatim>\<open>str\<close>.\<close>

definition range_text :: "int \<times> int \<Rightarrow> string" where
  "range_text r = str_int (fst r) @ ''-'' @ str_int (snd r)"

text \<open>One step of reading a digit string from the left.\<close>

definition dstep :: "nat \<Rightarrow> char \<Rightarrow> nat" where
  "dstep a c = 10 * a + digit_val c"

section \<open>A deterministic double of the host\<close>

text \<open>
  A stand-in for the two external tools, used to run the pipeline on concrete inputs. Its
  metadata query prints a fixed text that its \<open>json_loads\<close> reads as a document with heights
  480, 720 and 1080, of which only 720 is H.264 in mp4. Its download writes
  \<^verbatim>\<open>source.mp4\<close> into the directory of the output template when a merge container is asked
  for, and \<^verbatim>\<open>source.webm\<close> otherwise. Its encoder fails when an argument is \<^verbatim>\<open>99\<close> and
  otherwise writes the file named by its last argument.
\<close>

definition double_document :: document where
  "double_document =
     \<lparr>formats = Some [\<lparr>height = Some 480, vcodec = Some ''vp9'', ext = Some ''webm''\<rparr>,
                      \<lparr>height = Some 720, vcodec = Some ''avc1.64001F'', ext = Some ''mp4''\<rparr>,
                      \<lparr>height = Some 1080, vcodec = Some ''vp9'', ext = Some ''webm''\<rparr>]\<rparr>"

definition double_run :: "string list \<Rightarrow> fsys \<times> unit \<Rightarrow> (bool \<times> string) \<times> fsys \<times> unit" where
  "double_run cmd st =
     (if take 2 cmd = [''yt-dlp'', ''-J''] then ((True, ''{}''), st)
      else if take 1 cmd = [''yt-dlp''] then
        ((True, []),
         fst st @ [(butlast (str_split (CHR ''/'') (cmd ! 4)) @
                     [if ''--merge-output-format'' \<in> set cmd then ''source.mp4'' else ''source.webm''],
                    File ''video'')],
         snd st)
      else if ''99'' \<in> set cmd then ((False, []), st)
      else ((True, []), fst st @ [(str_split (CHR ''/'') (last cmd), File ''clip'')], snd st))"

definition double_env :: "unit env" where
  "double_env =
     \<lparr>which = (\<lambda>name. True), now_stamp = ''20240101_120000_000000'', temp_name = ''k3x9'',
      run = double_run,
      json_loads = (\<lambda>out. if out = ''{}'' then Some double_document else None)\<rparr>"

definition double_world :: "unit world" where
  "double_world = \<lparr>files = [], outside = (), trace = []\<rparr>"

text \<open>
  The worlds of a run of the double on the output directory \<^verbatim>\<open>out\<close> and the address
  \<^verbatim>\<open>u\<close>: after the output directory is made, after the workspace is made, after the
  metadata query, and after the download, in fast-path mode at height 720 and in re-encode
  mode at height 1080.
\<close>

definition double_tmp :: path where
  "double_tmp = [''out'', ''youtubeclipper_k3x9'']"

definition double_w1 :: "unit world" where
  "double_w1 = \<lparr>files = [([''out''], Dir)], outside = (), trace = [MkdirP [''out'']]\<rparr>"

definition double_w2 :: "unit world" where
  "double_w2 =
     \<lparr>files = [(double_tmp, Dir), ([''out''], Dir)], outside = (),
      trace = [MkdirP [''out''], Mkdtemp double_tmp]\<rparr>"

definition double_w3 :: "unit world" where
  "double_w3 =
     \<lparr>files = [(double_tmp, Dir), ([''out''], Dir)], outside = (),
      trace = [MkdirP [''out''], Mkdtemp double_tmp, Exec (inspect_cmd ''u'')]\<rparr>"

definition double_w4 :: "unit world" where
  "double_w4 =
     \<lparr>files = [(double_tmp, Dir), ([''out''], Dir), (double_tmp @ [''source.mp4''], File ''video'')],
      outside = (),
      trace = [MkdirP [''out''], Mkdtemp double_tmp, Exec (inspect_cmd ''u''),
               Exec (download_cmd ''u'' double_tmp (fst (format_selector 720 False))
                       (snd (format_selector 720 False)))]\<rparr>"

definition double_w4r :: "unit world" where
  "double_w4r =
     \<lparr>files = [(double_tmp, Dir), ([''out''], Dir), (double_tmp @ [''source.webm''], File ''video'')],
      outside = (),
      trace = [MkdirP [''out''], Mkdtemp double_tmp, Exec (inspect_cmd ''u''),
               Exec (download_cmd ''u'' double_tmp (fst (format_selector 1080 True))
                       (snd (format_selector 1080 True)))]\<rparr>"

text \<open>
  The two conditions of the classification, as predicates of an entry and a height, and the
  list \<^verbatim>\<open>data.get("formats", [])\<close>.
\<close>

definition any_codec :: "fmt \<Rightarrow> int \<Rightarrow> bool" where
  "any_codec f h = (height f = Some h \<and> h \<noteq> 0 \<and> vcodec f \<noteq> None \<and> vcodec f \<noteq> Some ''none'')"

definition fast_path :: "fmt \<Rightarrow> int \<Rightarrow> bool" where
  "fast_path f h = (any_codec f h \<and> ext f = Some ''mp4'' \<and> (\<exists>v. vcodec f = Some v \<and> prefix ''avc1'' v))"

definition formats_of :: "document \<Rightarrow> fmt list" where
  "formats_of data = (case formats data of None \<Rightarrow> [] | Some l \<Rightarrow> l)"

section \<open>Facts about strings and integers\<close>

lemma dropWhile_id: "s = [] \<or> \<not> P (hd s) \<Longrightarrow> dropWhile P s = s"
  by (cases s) auto

lemma strip_id: "s = [] \<or> (\<not> is_space (hd s) \<and> \<not> is_space (last s)) \<Longrightarrow> strip s = s"
  by (cases "s = []") (auto simp: strip_def dropWhile_id hd_rev)

lemma dropWhile_all_append: "\<forall>c\<in>set ws. P c \<Longrightarrow> dropWhile P (ws @ t) = dropWhile P t"
  by (induction ws) auto

lemma strip_pad:
  assumes "\<forall>c\<in>set ws1. is_space c" "\<forall>c\<in>set ws2. is_space c"
    and "t = [] \<or> (\<not> is_space (hd t) \<and> \<not> is_space (last t))"
  shows "strip (ws1 @ t @ ws2) = t"
proof (cases "t = []")
  case True
  have "\<forall>c\<in>set (ws1 @ ws2). is_space c" using assms by auto
  then have "dropWhile is_space (ws1 @ ws2) = []" by (simp only: dropWhile_eq_Nil_conv)
  then have "strip (ws1 @ ws2) = []" by (simp only: strip_def rev.simps dropWhile.simps)
  then show ?thesis using True by (simp only: append_Nil)
next
  case False
  then have h: "\<not> is_space (hd t)" "\<not> is_space (last t)" using assms by auto
  have 1: "dropWhile is_space (ws1 @ t @ ws2) = t @ ws2"
    using assms(1) False h by (simp add: dropWhile_all_append dropWhile_append1 dropWhile_id)
  have "dropWhile is_space (rev ws2 @ rev t) = rev t"
    using assms(2) False h by (simp add: dropWhile_all_append dropWhile_id hd_rev)
  then show ?thesis using 1 by (simp add: strip_def)
qed

lemma strip_ends: "strip s = [] \<or> (\<not> is_space (hd (strip s)) \<and> \<not> is_space (last (strip s)))"
proof -
  let ?a = "dropWhile is_space s"
  let ?b = "dropWhile is_space (rev ?a)"
  have b: "?b = [] \<or> \<not> is_space (hd ?b)" by (metis hd_dropWhile)
  have a: "?a = [] \<or> \<not> is_space (hd ?a)" by (metis hd_dropWhile)
  show ?thesis
  proof (cases "?b = []")
    case True then show ?thesis by (simp add: strip_def)
  next
    case False
    then have "\<not> is_space (hd ?b)" using b by blast
    then have l: "\<not> is_space (last (rev ?b))" using False by (simp add: last_rev)
    have ane: "?a \<noteq> []" using False by (metis dropWhile.simps(1) rev.simps(1))
    obtain pre where pre: "rev ?a = pre @ ?b"
      by (metis takeWhile_dropWhile_id)
    then have "?a = rev ?b @ rev pre" by (metis rev_append rev_rev_ident)
    then have "hd (rev ?b) = hd ?a" using False by (metis hd_append2 rev_is_Nil_conv)
    moreover have "\<not> is_space (hd ?a)" using a ane by blast
    ultimately show ?thesis using l by (simp add: strip_def)
  qed
qed

lemma strip_idem: "strip (strip s) = strip s"
  using strip_ends[of s] by (rule strip_id)

lemma set_strip: "set (strip s) \<subseteq> set s"
  unfolding strip_def by (metis set_rev set_dropWhileD subsetI)

lemma in_strip_iff: "\<not> is_space c \<Longrightarrow> c \<in> set (strip s) \<longleftrightarrow> c \<in> set s"
proof
  assume "c \<in> set (strip s)" then show "c \<in> set s" using set_strip by auto
next
  assume ns: "\<not> is_space c" and c: "c \<in> set s"
  have d: "\<And>t. c \<in> set t \<Longrightarrow> c \<in> set (dropWhile is_space t)"
  proof -
    fix t assume "c \<in> set t"
    then have "c \<in> set (takeWhile is_space t) \<or> c \<in> set (dropWhile is_space t)"
      by (metis Un_iff set_append takeWhile_dropWhile_id)
    then show "c \<in> set (dropWhile is_space t)" using ns by (auto dest: set_takeWhileD)
  qed
  show "c \<in> set (strip s)" unfolding strip_def using d[OF c] d[of "rev (dropWhile is_space s)"] by simp
qed

lemma of_char_digit_char: "d < 10 \<Longrightarrow> (of_char (digit_char d) :: nat) = 48 + d"
  by (simp add: digit_char_def)

lemma is_digit_digit_char: "d < 10 \<Longrightarrow> is_digit (digit_char d)"
  by (simp add: is_digit_def of_char_digit_char)

lemma digit_val_digit_char: "d < 10 \<Longrightarrow> digit_val (digit_char d) = d"
  by (simp add: digit_val_def of_char_digit_char)

lemma is_digit_not_space: "is_digit c \<Longrightarrow> \<not> is_space c"
  by (auto simp: is_digit_def is_space_def)

lemma is_digit_not_punct:
  "is_digit c \<Longrightarrow> c \<noteq> CHR ''_'' \<and> c \<noteq> CHR ''-'' \<and> c \<noteq> CHR ''+'' \<and> c \<noteq> CHR '':'' \<and> c \<noteq> CHR '',''"
  by (auto simp: is_digit_def)

lemma str_nat_digits: "\<forall>c\<in>set (str_nat n). is_digit c"
proof (induction n rule: str_nat.induct)
  case (1 n)
  show ?case
  proof (cases "n < 10")
    case True then show ?thesis by (subst str_nat.simps) (simp add: is_digit_digit_char)
  next
    case False
    then show ?thesis using 1 by (subst str_nat.simps) (simp add: is_digit_digit_char)
  qed
qed

lemma str_nat_nonempty: "str_nat n \<noteq> []"
  by (subst str_nat.simps) simp

lemma digits_acc_all_digits:
  "\<forall>c\<in>set s. is_digit c \<Longrightarrow> digits_acc a s = Some (foldl dstep a s)"
  by (induction a s rule: digits_acc.induct) (auto simp: dstep_def dest: is_digit_not_punct)

lemma foldl_str_nat: "foldl dstep 0 (str_nat n) = n"
proof (induction n rule: str_nat.induct)
  case (1 n)
  show ?case
  proof (cases "n < 10")
    case True then show ?thesis by (subst str_nat.simps) (simp add: dstep_def digit_val_digit_char)
  next
    case False
    then have "str_nat n = str_nat (n div 10) @ [digit_char (n mod 10)]"
      by (simp add: str_nat.simps[of n])
    then have "foldl dstep 0 (str_nat n) = dstep (foldl dstep 0 (str_nat (n div 10))) (digit_char (n mod 10))"
      by simp
    also have "\<dots> = dstep (n div 10) (digit_char (n mod 10))"
      using 1 False by simp
    also have "\<dots> = 10 * (n div 10) + n mod 10"
      by (simp add: dstep_def digit_val_digit_char)
    finally show ?thesis by simp
  qed
qed

lemma unsigned_int_all_digits:
  assumes "s \<noteq> []" "\<forall>c\<in>set s. is_digit c"
  shows "unsigned_int s =
     (if length s \<le> int_max_str_digits then Some (foldl dstep 0 s) else None)"
proof -
  obtain c cs where s: "s = c # cs" using assms(1) by (cases s) auto
  have f: "filter is_digit s = s" using assms(2) by simp
  have "digits_acc (digit_val c) cs = Some (foldl dstep (digit_val c) cs)"
    using assms(2) s by (simp add: digits_acc_all_digits)
  moreover have "foldl dstep (digit_val c) cs = foldl dstep 0 s"
    using s by (simp add: dstep_def)
  moreover have "is_digit c" using assms(2) s by simp
  ultimately show ?thesis
    unfolding unsigned_int_def f using s by simp
qed

lemma length_str_nat_le: "0 < k \<Longrightarrow> n < 10 ^ k \<Longrightarrow> length (str_nat n) \<le> k"
proof (induction n arbitrary: k rule: str_nat.induct)
  case (1 n)
  show ?case
  proof (cases "n < 10")
    case True
    then show ?thesis using "1.prems"(1) by (simp add: str_nat.simps[of n])
  next
    case False
    obtain j where k: "k = Suc j" using "1.prems"(1) by (cases k) auto
    have "j \<noteq> 0" using False "1.prems"(2) k by (cases j) auto
    then have j: "0 < j" by simp
    have "n < 10 * 10 ^ j" using "1.prems"(2) k by simp
    then have "n div 10 < 10 ^ j" by (simp add: less_mult_imp_div_less mult.commute)
    then have "length (str_nat (n div 10)) \<le> j" using "1.IH" False j by blast
    then show ?thesis using False k by (simp add: str_nat.simps[of n])
  qed
qed

lemma length_str_nat_gt: "10 ^ k \<le> n \<Longrightarrow> k < length (str_nat n)"
proof (induction n arbitrary: k rule: str_nat.induct)
  case (1 n)
  show ?case
  proof (cases k)
    case 0
    have "str_nat n \<noteq> []" by (simp add: str_nat.simps[of n])
    then show ?thesis using 0 by simp
  next
    case (Suc j)
    then have t: "10 * 10 ^ j \<le> n" using "1.prems" by simp
    have "(1::nat) \<le> 10 ^ j" by simp
    then have nl: "\<not> n < 10" using t by linarith
    have "10 ^ j \<le> n div 10" using t by (simp add: less_eq_div_iff_mult_less_eq mult.commute)
    then have "j < length (str_nat (n div 10))" using "1.IH" nl by blast
    then show ?thesis using nl Suc by (simp add: str_nat.simps[of n])
  qed
qed

lemma unsigned_int_str_nat:
  "unsigned_int (str_nat n) = (if n < 10 ^ int_max_str_digits then Some n else None)"
proof -
  have pos: "0 < int_max_str_digits" by (simp add: int_max_str_digits_def)
  have "length (str_nat n) \<le> int_max_str_digits \<longleftrightarrow> n < 10 ^ int_max_str_digits"
    using length_str_nat_le[OF pos, of n] length_str_nat_gt[of int_max_str_digits n]
    by (meson not_le)
  then show ?thesis
    by (simp add: unsigned_int_all_digits str_nat_nonempty str_nat_digits foldl_str_nat)
qed

lemma str_int_ends: "\<not> is_space (hd (str_int i)) \<and> \<not> is_space (last (str_int i))"
proof -
  have "\<And>n. \<not> is_space (hd (str_nat n)) \<and> \<not> is_space (last (str_nat n))"
    by (meson hd_in_set last_in_set is_digit_not_space str_nat_digits str_nat_nonempty)
  then show ?thesis by (auto simp: str_int_def str_nat_nonempty is_space_def)
qed

lemma str_int_nonempty: "str_int i \<noteq> []"
  by (simp add: str_int_def str_nat_nonempty)

lemma strip_str_int: "strip (str_int i) = str_int i"
  by (rule strip_id) (simp add: str_int_ends)

lemma nat_less_pow10: "0 \<le> i \<Longrightarrow> nat i < 10 ^ k \<longleftrightarrow> i < 10 ^ k"
  by (simp add: nat_less_iff)

lemma py_int_str_int:
  "py_int (str_int i) = (if \<bar>i\<bar> < 10 ^ int_max_str_digits then Some i else None)"
proof (cases "i < 0")
  case True
  have "strip (CHR ''-'' # str_nat (nat (- i))) = CHR ''-'' # str_nat (nat (- i))"
    using strip_str_int[of i] True by (simp add: str_int_def)
  moreover have "nat (- i) < 10 ^ int_max_str_digits \<longleftrightarrow> \<bar>i\<bar> < 10 ^ int_max_str_digits"
    using True nat_less_pow10[of "- i" int_max_str_digits] by simp
  ultimately show ?thesis using True by (simp add: py_int_def str_int_def unsigned_int_str_nat)
next
  case False
  obtain c cs where s: "str_nat (nat i) = c # cs" using str_nat_nonempty by (cases "str_nat (nat i)") auto
  have d: "is_digit c" using str_nat_digits[of "nat i"] s by simp
  have "strip (c # cs) = c # cs" using strip_str_int[of i] False s by (simp add: str_int_def)
  moreover have "unsigned_int (c # cs) = (if nat i < 10 ^ int_max_str_digits then Some (nat i) else None)"
    using unsigned_int_str_nat[of "nat i"] s by simp
  moreover have "nat i < 10 ^ int_max_str_digits \<longleftrightarrow> \<bar>i\<bar> < 10 ^ int_max_str_digits"
    using False nat_less_pow10[of i int_max_str_digits] by simp
  ultimately show ?thesis using False s is_digit_not_punct[OF d] by (simp add: py_int_def str_int_def)
qed

lemma py_int_strip: "py_int (strip s) = py_int s"
  by (simp add: py_int_def strip_idem)

lemma digits_acc_chars: "digits_acc a s = Some v \<Longrightarrow> \<forall>c\<in>set s. is_digit c \<or> c = CHR ''_''"
  by (induction a s arbitrary: v rule: digits_acc.induct) (auto split: if_splits)

lemma unsigned_int_chars: "unsigned_int s = Some v \<Longrightarrow> \<forall>c\<in>set s. is_digit c \<or> c = CHR ''_''"
  by (cases s) (auto simp: unsigned_int_def split: if_splits dest: digits_acc_chars)

lemma py_int_chars:
  assumes "py_int s = Some v"
  shows "\<forall>c\<in>set (strip s). is_digit c \<or> c = CHR ''_'' \<or> c = CHR ''-'' \<or> c = CHR ''+''"
  using assms unfolding py_int_def
  by (cases "strip s") (auto split: if_splits dest!: unsigned_int_chars)

lemma py_int_no_colon: "py_int s = Some v \<Longrightarrow> CHR '':'' \<notin> set s"
proof
  assume a: "py_int s = Some v" and "CHR '':'' \<in> set s"
  then have "CHR '':'' \<in> set (strip s)" by (simp add: in_strip_iff is_space_def)
  then show False using py_int_chars[OF a] by (auto simp: is_digit_def)
qed

lemma py_int_minus_nonpos:
  assumes "py_int s = Some v" "CHR ''-'' \<in> set s"
  shows "v \<le> 0"
proof -
  have m: "CHR ''-'' \<in> set (strip s)" using assms(2) by (simp add: in_strip_iff is_space_def)
  then obtain c cs where s: "strip s = c # cs" by (cases "strip s") auto
  have nd: "\<not> is_digit (CHR ''-'')" by (simp add: is_digit_def)
  show ?thesis
  proof (cases "c = CHR ''-''")
    case True
    then obtain n where "v = - int n" using assms(1) s by (auto simp: py_int_def)
    then show ?thesis by simp
  next
    case False
    then have mcs: "CHR ''-'' \<in> set cs" using m s by simp
    show ?thesis
    proof (cases "c = CHR ''+''")
      case True
      then obtain n where "unsigned_int cs = Some n" using assms(1) s by (auto simp: py_int_def)
      then show ?thesis using unsigned_int_chars mcs nd by fastforce
    next
      case F2: False
      then obtain n where "unsigned_int (c # cs) = Some n"
        using assms(1) s False by (auto simp: py_int_def)
      then have "\<forall>x\<in>set (c # cs). is_digit x \<or> x = CHR ''_''" by (rule unsigned_int_chars)
      then show ?thesis using mcs nd by fastforce
    qed
  qed
qed

subsection \<open>parse_time\<close>

lemma not_space_punct:
  "\<not> is_space (CHR '':'')" "\<not> is_space (CHR ''-'')" "\<not> is_space (CHR '','')"
  by (simp_all add: is_space_def)

lemma parse_time_eq:
  "parse_time text =
     (case py_int text of None \<Rightarrow> Inl InvalidTimestamp
      | Some n \<Rightarrow> if n < 0 then Inl NegativeTimestamp else Inr n)"
proof (cases "py_int text")
  case None
  then show ?thesis by (simp add: parse_time_def py_int_strip Let_def)
next
  case (Some n)
  then have "CHR '':'' \<notin> set (strip text)"
    using py_int_no_colon[of "strip text" n] by (simp add: py_int_strip)
  then show ?thesis using Some by (simp add: parse_time_def py_int_strip Let_def)
qed

lemma parse_time_colon: "CHR '':'' \<in> set text \<Longrightarrow> parse_time text = Inl InvalidTimestamp"
  by (simp add: parse_time_def in_strip_iff not_space_punct Let_def)

lemma py_int_padded:
  assumes "\<forall>c\<in>set ws1. is_space c" "\<forall>c\<in>set ws2. is_space c"
  shows "py_int (ws1 @ str_int n @ ws2) =
     (if \<bar>n\<bar> < 10 ^ int_max_str_digits then Some n else None)"
proof -
  have "strip (ws1 @ str_int n @ ws2) = str_int n"
    using assms by (intro strip_pad) (simp_all add: str_int_ends)
  then have "py_int (ws1 @ str_int n @ ws2) = py_int (str_int n)"
    by (metis py_int_strip)
  then show ?thesis by (simp add: py_int_str_int)
qed

lemma parse_time_str_int:
  "parse_time (str_int n) =
     (if \<not> \<bar>n\<bar> < 10 ^ int_max_str_digits then Inl InvalidTimestamp
      else if n < 0 then Inl NegativeTimestamp else Inr n)"
  by (simp add: parse_time_eq py_int_str_int)

lemma small_bound: "\<bar>i\<bar> < 10 ^ 4 \<Longrightarrow> \<bar>i\<bar> < (10::int) ^ int_max_str_digits"
proof -
  have "(10::int) ^ 4 \<le> 10 ^ int_max_str_digits"
    by (rule power_increasing) (simp_all add: int_max_str_digits_def)
  then show "\<bar>i\<bar> < 10 ^ 4 \<Longrightarrow> \<bar>i\<bar> < (10::int) ^ int_max_str_digits" by linarith
qed

lemma str_nat_pow10: "str_nat (10 ^ k) = CHR ''1'' # replicate k (CHR ''0'')"
proof (induction k)
  case 0
  have "digit_char (Suc 0) = CHR ''1''" by code_simp
  then show ?case by (simp add: str_nat.simps[of "Suc 0"])
next
  case (Suc k)
  have z: "digit_char 0 = CHR ''0''" by code_simp
  have "\<not> (10::nat) * 10 ^ k < 10" by simp
  then have "str_nat (10 * 10 ^ k) = str_nat (10 ^ k) @ [digit_char 0]"
    by (simp add: str_nat.simps[of "10 * 10 ^ k"])
  then show ?case using Suc z by (simp add: replicate_append_same)
qed

lemma str_int_pow10: "str_int (10 ^ k) = CHR ''1'' # replicate k (CHR ''0'')"
proof -
  have "nat ((10::int) ^ k) = 10 ^ k" by (simp add: nat_power_eq)
  moreover have "\<not> (10::int) ^ k < 0" by simp
  ultimately show ?thesis by (simp only: str_int_def str_nat_pow10 if_False)
qed

lemma digits_text:
  assumes "text \<noteq> []" "\<forall>c\<in>set text. is_digit c"
    and "\<forall>c\<in>set ws1. is_space c" "\<forall>c\<in>set ws2. is_space c"
  shows "parse_time (ws1 @ text @ ws2) =
     (if length text \<le> int_max_str_digits then Inr (int (foldl dstep 0 text))
      else Inl InvalidTimestamp)"
proof -
  have e: "\<not> is_space (hd text) \<and> \<not> is_space (last text)"
    using assms(1,2) by (meson hd_in_set last_in_set is_digit_not_space)
  have st: "strip (ws1 @ text @ ws2) = text"
    using assms(3,4) e by (intro strip_pad) simp_all
  obtain c cs where t: "text = c # cs" using assms(1) by (cases "text") auto
  have d: "is_digit c" using assms(2) t by simp
  have "py_int (ws1 @ text @ ws2) = map_option int (unsigned_int text)"
    using st t is_digit_not_punct[OF d] by (simp add: py_int_def)
  then show ?thesis
    using unsigned_int_all_digits[OF assms(1,2)] by (simp add: parse_time_eq)
qed

lemma pow10_text:
  "str_int (10 ^ k) \<noteq> [] \<and> (\<forall>c\<in>set (str_int (10 ^ k)). is_digit c) \<and>
   length (str_int (10 ^ k)) = Suc k"
  by (simp add: str_int_pow10 is_digit_def)

lemma pow10_long:
  "int_max_str_digits \<le> k \<Longrightarrow> int_max_str_digits < length (str_int (10 ^ k))"
  by (simp add: pow10_text)

lemma parse_time_str_int_big:
  "10 ^ int_max_str_digits \<le> \<bar>n\<bar> \<Longrightarrow> parse_time (str_int n) = Inl InvalidTimestamp"
  by (simp add: parse_time_str_int)

lemma pow10_big: "int_max_str_digits \<le> k \<Longrightarrow> (10::int) ^ int_max_str_digits \<le> \<bar>10 ^ k\<bar>"
  by (simp add: power_increasing)

lemma parse_time_errors:
  "parse_time text = Inl e \<Longrightarrow> e = InvalidTimestamp \<or> e = NegativeTimestamp"
  by (auto simp: parse_time_eq split: option.splits if_splits)

lemma parse_time_nonneg: "parse_time text = Inr n \<Longrightarrow> 0 \<le> n"
  by (auto simp: parse_time_eq split: option.splits if_splits)

lemma exn_distinct:
  "InvalidTimestamp \<noteq> NegativeTimestamp"
  "InvalidTimestamp \<noteq> NonPositiveDuration"
  "NegativeTimestamp \<noteq> NonPositiveDuration"
  "InvalidTimestamp \<noteq> MalformedRange x"
  "NegativeTimestamp \<noteq> MalformedRange x"
  "NonPositiveDuration \<noteq> MalformedRange x"
  "InvalidTimestamp \<noteq> NoRangesProvided"
  "NegativeTimestamp \<noteq> NoRangesProvided"
  "NonPositiveDuration \<noteq> NoRangesProvided"
  "MalformedRange x \<noteq> NoRangesProvided"
  by (simp_all add: InvalidTimestamp_def NegativeTimestamp_def NonPositiveDuration_def
      MalformedRange_def NoRangesProvided_def)

lemma parse_time_minus:
  assumes "CHR ''-'' \<in> set text"
  shows "parse_time text = Inl InvalidTimestamp \<or> parse_time text = Inl NegativeTimestamp
         \<or> parse_time text = Inr 0"
proof (cases "py_int text")
  case None then show ?thesis by (simp add: parse_time_eq)
next
  case (Some n)
  then have "n \<le> 0" using assms by (rule py_int_minus_nonpos)
  then show ?thesis using Some by (auto simp: parse_time_eq)
qed

lemma py_int_negative_minus:
  assumes "py_int s = Some v" "v < 0"
  shows "CHR ''-'' \<in> set s"
proof -
  obtain c cs where s: "strip s = c # cs" using assms(1) by (cases "strip s") (auto simp: py_int_def)
  have "c = CHR ''-''" using assms s by (auto simp: py_int_def split: if_splits)
  then have "CHR ''-'' \<in> set (strip s)" using s by simp
  then show ?thesis using set_strip by auto
qed

lemma parse_time_negative_minus:
  "parse_time text = Inl NegativeTimestamp \<Longrightarrow> CHR ''-'' \<in> set text"
  by (auto simp: parse_time_eq exn_distinct split: option.splits if_splits dest: py_int_negative_minus)

lemma parse_time_empty: "parse_time [] = Inl InvalidTimestamp"
  by (simp add: parse_time_def strip_def py_int_def Let_def)

section \<open>Facts about range parsing\<close>

subsection \<open>The loop over items\<close>

lemma parse_items_one:
  "parse_items [item] [] =
     (if CHR ''-'' \<notin> set item then Inl (MalformedRange item)
      else case parse_time (fst (split_first (CHR ''-'') item)) of
             Inl e \<Rightarrow> Inl e
           | Inr a \<Rightarrow>
               (case parse_time (snd (split_first (CHR ''-'') item)) of
                  Inl e \<Rightarrow> Inl e
                | Inr b \<Rightarrow> if b \<le> a then Inl NonPositiveDuration else Inr [(a, b)]))"
  by (simp add: parse_items.simps(2) validate_range_def split: prod.splits sum.splits)

lemma parse_items_Cons:
  "parse_items (item # items) acc =
     (case parse_items [item] [] of Inl e \<Rightarrow> Inl e | Inr ps \<Rightarrow> parse_items items (acc @ ps))"
  by (simp add: parse_items.simps(2) validate_range_def split: prod.splits sum.splits)

lemma parse_items_append:
  "parse_items (pre @ rest) acc =
     (case parse_items pre acc of Inl e \<Rightarrow> Inl e | Inr acc' \<Rightarrow> parse_items rest acc')"
proof (induction pre arbitrary: acc)
  case Nil then show ?case by simp
next
  case (Cons item pre)
  have "parse_items ((item # pre) @ rest) acc =
      (case parse_items [item] [] of Inl e \<Rightarrow> Inl e | Inr ps \<Rightarrow> parse_items (pre @ rest) (acc @ ps))"
    by (simp add: parse_items_Cons[of item "pre @ rest"])
  also have "\<dots> = (case parse_items [item] [] of Inl e \<Rightarrow> Inl e
      | Inr ps \<Rightarrow> (case parse_items pre (acc @ ps) of Inl e \<Rightarrow> Inl e | Inr acc' \<Rightarrow> parse_items rest acc'))"
    by (simp add: Cons.IH split: sum.splits)
  also have "\<dots> = (case parse_items (item # pre) acc of Inl e \<Rightarrow> Inl e | Inr acc' \<Rightarrow> parse_items rest acc')"
    by (simp add: parse_items_Cons[of item pre] split: sum.splits)
  finally show ?case .
qed

lemma parse_items_acc:
  "parse_items items acc =
     (case parse_items items [] of Inl e \<Rightarrow> Inl e | Inr ps \<Rightarrow> Inr (acc @ ps))"
proof (induction items arbitrary: acc rule: rev_induct)
  case Nil then show ?case by simp
next
  case (snoc item items)
  have 1: "parse_items [item] acc' =
        (case parse_items [item] [] of Inl e \<Rightarrow> Inl e | Inr ps \<Rightarrow> Inr (acc' @ ps))" for acc'
    by (simp add: parse_items_Cons[of item "[]" acc'] split: sum.splits)
  show ?case
  proof (cases "parse_items items []")
    case (Inl e)
    then have "parse_items items acc = Inl e" by (simp add: snoc.IH[of acc])
    then show ?thesis using Inl by (simp add: parse_items_append)
  next
    case (Inr ps)
    then have "parse_items items acc = Inr (acc @ ps)" by (simp add: snoc.IH[of acc])
    then show ?thesis using Inr
      by (simp add: parse_items_append 1[of "acc @ ps"] 1[of ps] split: sum.splits)
  qed
qed

lemma parse_items_fail_item:
  "parse_items items acc = Inl e \<Longrightarrow> \<exists>item\<in>set items. parse_items [item] [] = Inl e"
proof (induction items arbitrary: acc)
  case Nil then show ?case by simp
next
  case (Cons item items)
  show ?case
  proof (cases "parse_items [item] []")
    case (Inl e')
    then have "e' = e" using Cons.prems by (simp only: parse_items_Cons[of item items] sum.case) simp
    then show ?thesis using Inl by auto
  next
    case (Inr ps)
    then have "parse_items items (acc @ ps) = Inl e"
      using Cons.prems by (simp only: parse_items_Cons[of item items] sum.case)
    then show ?thesis using Cons.IH by auto
  qed
qed

lemma parse_items_ok_items:
  "parse_items items acc = Inr rs \<Longrightarrow>
     \<forall>item\<in>set items. \<exists>p. parse_items [item] [] = Inr [p]"
proof (induction items arbitrary: acc)
  case Nil then show ?case by simp
next
  case (Cons item items)
  show ?case
  proof (cases "parse_items [item] []")
    case (Inl e')
    then show ?thesis using Cons.prems by (simp only: parse_items_Cons[of item items] sum.case) simp
  next
    case (Inr ps)
    then have 1: "parse_items items (acc @ ps) = Inr rs"
      using Cons.prems by (simp only: parse_items_Cons[of item items] sum.case)
    have "\<exists>p. ps = [p]" using Inr by (simp only: parse_items_one split: if_splits sum.splits) auto
    then show ?thesis using Cons.IH[OF 1] Inr by auto
  qed
qed

lemma parse_items_length:
  "parse_items items acc = Inr rs \<Longrightarrow> length rs = length acc + length items"
proof (induction items arbitrary: acc)
  case Nil then show ?case by simp
next
  case (Cons item items)
  show ?case
  proof (cases "parse_items [item] []")
    case (Inl e')
    then show ?thesis using Cons.prems by (simp only: parse_items_Cons[of item items] sum.case) simp
  next
    case (Inr ps)
    then have 1: "parse_items items (acc @ ps) = Inr rs"
      using Cons.prems by (simp only: parse_items_Cons[of item items] sum.case)
    have "\<exists>p. ps = [p]" using Inr by (simp only: parse_items_one split: if_splits sum.splits) auto
    then show ?thesis using Cons.IH[OF 1] by auto
  qed
qed

subsection \<open>Splitting at the first separator\<close>

lemma split_first_fst_no_sep: "sep \<notin> set (fst (split_first sep s))"
  by (auto simp: split_first_def dest: set_takeWhileD)

lemma split_first_recompose:
  "sep \<in> set s \<Longrightarrow> s = fst (split_first sep s) @ sep # snd (split_first sep s)"
proof -
  assume "sep \<in> set s"
  then have ne: "dropWhile (\<lambda>c. c \<noteq> sep) s \<noteq> []" by (simp add: dropWhile_eq_Nil_conv)
  then have "hd (dropWhile (\<lambda>c. c \<noteq> sep) s) = sep" using hd_dropWhile[of "\<lambda>c. c \<noteq> sep" s] by simp
  then have "dropWhile (\<lambda>c. c \<noteq> sep) s = sep # tl (dropWhile (\<lambda>c. c \<noteq> sep) s)"
    using ne by (metis list.collapse)
  then show ?thesis
    by (metis fst_conv snd_conv split_first_def takeWhile_dropWhile_id)
qed

lemma split_first_append:
  "sep \<notin> set a \<Longrightarrow> split_first sep (a @ sep # b) = (a, b)"
proof -
  assume a: "sep \<notin> set a"
  then have n: "\<And>x. x \<in> set a \<Longrightarrow> x \<noteq> sep" by auto
  have "takeWhile (\<lambda>c. c \<noteq> sep) (a @ sep # b) = a @ takeWhile (\<lambda>c. c \<noteq> sep) (sep # b)"
    using n by (rule takeWhile_append2)
  moreover have "dropWhile (\<lambda>c. c \<noteq> sep) (a @ sep # b) = dropWhile (\<lambda>c. c \<noteq> sep) (sep # b)"
    using n by (rule dropWhile_append2)
  ultimately show ?thesis by (simp add: split_first_def)
qed

lemma split_first_hd: "split_first sep (sep # b) = ([], b)"
  by (simp add: split_first_def)

lemma count_split_first:
  assumes "sep \<in> set s"
  shows "count_list s sep = Suc (count_list (snd (split_first sep s)) sep)"
proof -
  have "count_list (fst (split_first sep s)) sep = 0"
    using split_first_fst_no_sep[of sep s] by (simp add: count_list_0_iff)
  then show ?thesis
    using arg_cong[OF split_first_recompose[OF assms], of "\<lambda>l. count_list l sep"]
    by simp
qed

subsection \<open>Splitting and joining\<close>

lemma str_split_nonempty: "str_split sep s \<noteq> []"
  by (induction s) (auto simp: Let_def)

lemma str_split_no_sep: "sep \<notin> set x \<Longrightarrow> str_split sep x = [x]"
  by (induction x) (auto simp: Let_def)

lemma str_split_append:
  "sep \<notin> set x \<Longrightarrow> str_split sep (x @ sep # rest) = x # str_split sep rest"
  by (induction x) (auto simp: Let_def)

lemma str_split_join:
  "xs \<noteq> [] \<Longrightarrow> \<forall>x\<in>set xs. sep \<notin> set x \<Longrightarrow> str_split sep (str_join [sep] xs) = xs"
proof (induction "[sep]" xs rule: str_join.induct)
  case 1 then show ?case by simp
next
  case (2 x) then show ?case by (simp add: str_split_no_sep)
next
  case (3 x y ys)
  then show ?case by (simp add: str_split_append)
qed

lemma str_int_chars: "\<forall>c\<in>set (str_int i). is_digit c \<or> c = CHR ''-''"
  using str_nat_digits by (auto simp: str_int_def)

lemma str_int_nonneg_digits: "0 \<le> i \<Longrightarrow> \<forall>c\<in>set (str_int i). is_digit c"
  using str_nat_digits by (auto simp: str_int_def)

lemma range_text_no_comma: "CHR '','' \<notin> set (range_text r)"
  using str_int_chars[of "fst r"] str_int_chars[of "snd r"]
  by (auto simp: range_text_def dest: is_digit_not_punct)

lemma range_text_strip: "strip (range_text r) = range_text r"
proof (rule strip_id)
  have "hd (range_text r) = hd (str_int (fst r))" "last (range_text r) = last (str_int (snd r))"
    by (simp_all add: range_text_def str_int_nonempty)
  then show "range_text r = [] \<or> \<not> is_space (hd (range_text r)) \<and> \<not> is_space (last (range_text r))"
    by (simp add: str_int_ends)
qed

lemma range_text_nonempty: "range_text r \<noteq> []"
  by (simp add: range_text_def)

lemma range_items_join:
  assumes "rs \<noteq> []"
  shows "range_items (str_join '','' (map range_text rs)) = map range_text rs"
proof -
  have "str_split (CHR '','') (str_join [CHR '',''] (map range_text rs)) = map range_text rs"
    using assms by (intro str_split_join) (auto simp: range_text_no_comma)
  then show ?thesis
    by (simp add: range_items_def range_text_strip range_text_nonempty filter_id_conv)
qed

lemma parse_items_range_text:
  assumes "0 \<le> a" "a < 10 ^ int_max_str_digits"
  shows "parse_items [range_text (a, b)] [] =
     (if \<not> \<bar>b\<bar> < 10 ^ int_max_str_digits then Inl InvalidTimestamp
      else if b < 0 then Inl NegativeTimestamp
      else if b \<le> a then Inl NonPositiveDuration else Inr [(a, b)])"
proof -
  have "CHR ''-'' \<notin> set (str_int a)"
    using str_int_nonneg_digits[OF assms(1)] by (auto dest: is_digit_not_punct)
  then have "split_first (CHR ''-'') (range_text (a, b)) = (str_int a, str_int b)"
    by (simp add: range_text_def split_first_append)
  then show ?thesis using assms
    by (simp add: parse_items_one range_text_def parse_time_str_int)
qed

lemma parse_items_map_range_text:
  "\<forall>r\<in>set rs. 0 \<le> fst r \<and> fst r < snd r \<and> snd r < 10 ^ int_max_str_digits \<Longrightarrow>
     parse_items (map range_text rs) acc = Inr (acc @ rs)"
proof (induction rs arbitrary: acc)
  case Nil then show ?case by simp
next
  case (Cons r rs)
  obtain a b where r: "r = (a, b)" by (cases r)
  have "0 \<le> a" "a < b" "b < 10 ^ int_max_str_digits" using Cons.prems r by simp_all
  then have "parse_items [range_text (a, b)] [] = Inr [(a, b)]"
    by (simp add: parse_items_range_text)
  then have "parse_items [range_text r] [] = Inr [r]"
    using r by simp
  then show ?case using Cons
    by (simp add: parse_items_Cons[of "range_text r" "map range_text rs"])
qed

lemma range_items_range_text: "range_items (range_text r) = [range_text r]"
  using range_items_join[of "[r]"] by simp

lemma range_text_big:
  assumes "0 \<le> a" "a < 10 ^ int_max_str_digits" "10 ^ int_max_str_digits \<le> \<bar>b\<bar>"
  shows "parse_clip_ranges (range_text (a, b)) = Inl InvalidTimestamp"
proof -
  have "\<not> \<bar>b\<bar> < 10 ^ int_max_str_digits" using assms(3) by simp
  then have "parse_items [range_text (a, b)] [] = Inl InvalidTimestamp"
    using assms(1,2) by (simp add: parse_items_range_text)
  then show ?thesis
    by (simp add: parse_clip_ranges_def Let_def range_items_range_text)
qed

lemma zero_small: "(0::int) < 10 ^ int_max_str_digits"
  by simp

lemma pow10_ge: "int_max_str_digits \<le> k \<Longrightarrow> (10::int) ^ int_max_str_digits \<le> 10 ^ k"
  by (simp add: power_increasing)

subsection \<open>Errors of one item\<close>

lemma parse_items_one_errors:
  assumes "parse_items [item] [] = Inl e"
  shows "e = MalformedRange item \<or> e = InvalidTimestamp \<or> e = NegativeTimestamp \<or> e = NonPositiveDuration"
  using assms
  by (simp only: parse_items_one split: if_splits sum.splits) (auto dest: parse_time_errors)

lemma parse_items_not_no_ranges: "parse_items items acc \<noteq> Inl NoRangesProvided"
proof
  assume "parse_items items acc = Inl NoRangesProvided"
  then obtain item where "parse_items [item] [] = Inl NoRangesProvided"
    using parse_items_fail_item by blast
  then show False using parse_items_one_errors exn_distinct by metis
qed

lemma parse_clip_ranges_at:
  assumes "range_items r = pre @ item # post" "parse_items pre [] = Inr ps"
  shows "parse_clip_ranges r =
     (case parse_items [item] [] of Inl e \<Rightarrow> Inl e | Inr p \<Rightarrow> parse_items post (ps @ p))"
  using assms
  by (simp add: parse_clip_ranges_def Let_def parse_items_append parse_items_Cons[of item post])

lemma start_not_negative:
  "parse_time (fst (split_first (CHR ''-'') item)) \<noteq> Inl NegativeTimestamp"
  using parse_time_negative_minus split_first_fst_no_sep by blast

lemma many_seps_fail:
  assumes "1 < count_list item (CHR ''-'')"
  shows "parse_items [item] [] =
     (case parse_time (fst (split_first (CHR ''-'') item)) of
        Inl e \<Rightarrow> Inl InvalidTimestamp
      | Inr a \<Rightarrow> (case parse_time (snd (split_first (CHR ''-'') item)) of
                    Inl e \<Rightarrow> Inl e | Inr b \<Rightarrow> Inl NonPositiveDuration))"
proof -
  have m: "CHR ''-'' \<in> set item" using assms by (metis count_list_0_iff not_less_zero)
  have "0 < count_list (snd (split_first (CHR ''-'') item)) (CHR ''-'')"
    using assms count_split_first[OF m] by simp
  then have e: "CHR ''-'' \<in> set (snd (split_first (CHR ''-'') item))"
    by (metis count_list_0_iff less_numeral_extra(3))
  show ?thesis
  proof (cases "parse_time (fst (split_first (CHR ''-'') item))")
    case (Inl x)
    then have "x = InvalidTimestamp" using parse_time_errors start_not_negative by metis
    then show ?thesis using Inl m by (simp add: parse_items_one)
  next
    case (Inr a)
    then have a: "0 \<le> a" by (rule parse_time_nonneg)
    show ?thesis using parse_time_minus[OF e] Inr a m exn_distinct
      by (auto simp: parse_items_one)
  qed
qed

lemma parse_items_ok_all2:
  "parse_items items acc = Inr rs \<Longrightarrow>
     \<exists>ps. rs = acc @ ps \<and> list_all2 (\<lambda>item p. parse_items [item] [] = Inr [p]) items ps"
proof (induction items arbitrary: acc)
  case Nil then show ?case by simp
next
  case (Cons item items)
  show ?case
  proof (cases "parse_items [item] []")
    case (Inl e')
    then show ?thesis using Cons.prems by (simp add: parse_items_Cons[of item items])
  next
    case (Inr ps)
    then have 1: "parse_items items (acc @ ps) = Inr rs"
      using Cons.prems by (simp add: parse_items_Cons[of item items])
    obtain p where p: "ps = [p]"
      using Inr by (simp only: parse_items_one split: if_splits sum.splits) auto
    obtain qs where "rs = (acc @ ps) @ qs" "list_all2 (\<lambda>item p. parse_items [item] [] = Inr [p]) items qs"
      using Cons.IH[OF 1] by blast
    then have "rs = acc @ (p # qs) \<and> list_all2 (\<lambda>item p. parse_items [item] [] = Inr [p]) (item # items) (p # qs)"
      using p Inr by simp
    then show ?thesis by blast
  qed
qed

lemma parse_items_one_ok_count:
  assumes "parse_items [item] [] = Inr [p]"
  shows "count_list item (CHR ''-'') = 1"
proof (rule ccontr)
  assume n: "count_list item (CHR ''-'') \<noteq> 1"
  have m: "CHR ''-'' \<in> set item"
    using assms by (simp only: parse_items_one split: if_splits) simp
  then have "0 < count_list item (CHR ''-'')" by (metis count_list_0_iff gr0I)
  then have "1 < count_list item (CHR ''-'')" using n by simp
  then show False using many_seps_fail[of item] assms by (simp split: sum.splits)
qed

lemma parse_clip_ranges_eq:
  "parse_clip_ranges r =
     (if range_items r = [] then Inl NoRangesProvided else parse_items (range_items r) [])"
  by (simp add: parse_clip_ranges_def Let_def)

lemma no_ranges_iff:
  "(parse_clip_ranges r = Inl NoRangesProvided) = (\<forall>seg\<in>set (str_split (CHR '','') r). strip seg = [])"
proof -
  have "(parse_clip_ranges r = Inl NoRangesProvided) = (range_items r = [])"
    by (simp add: parse_clip_ranges_eq parse_items_not_no_ranges)
  also have "\<dots> = (\<forall>seg\<in>set (str_split (CHR '','') r). strip seg = [])"
    by (simp add: range_items_def filter_empty_conv)
  finally show ?thesis .
qed

section \<open>Facts about the classification of heights\<close>

lemma heights_loop_sets:
  "heights_loop fs (A, B) =
     (A \<union> {h. \<exists>f\<in>set fs. fast_path f h}, B \<union> {h. \<exists>f\<in>set fs. any_codec f h})"
proof (induction fs arbitrary: A B)
  case Nil then show ?case by simp
next
  case (Cons f fs)
  show ?case
    by (auto simp: Cons.IH Let_def any_codec_def fast_path_def)
qed

lemma finite_heights: "finite {h. \<exists>f\<in>set fs. any_codec f h}" "finite {h. \<exists>f\<in>set fs. fast_path f h}"
proof -
  have "{h. \<exists>f\<in>set fs. any_codec f h} \<subseteq> (\<lambda>f. the (height f)) ` set fs"
    by (auto simp: any_codec_def image_iff) force
  then show "finite {h. \<exists>f\<in>set fs. any_codec f h}" by (rule finite_subset) simp
  moreover have "{h. \<exists>f\<in>set fs. fast_path f h} \<subseteq> {h. \<exists>f\<in>set fs. any_codec f h}"
    by (auto simp: fast_path_def)
  ultimately show "finite {h. \<exists>f\<in>set fs. fast_path f h}" by (rule rev_finite_subset)
qed

lemma classify_heights_eq:
  "classify_heights data =
     (sorted_list_of_set {h. \<exists>f\<in>set (formats_of data). fast_path f h},
      sorted_list_of_set {h. \<exists>f\<in>set (formats_of data). any_codec f h})"
  by (simp add: classify_heights_def formats_of_def heights_loop_sets Let_def)

lemma strict_sorted_list_of_set: "sorted_wrt (<) (sorted_list_of_set (A :: int set))"
  by (metis strict_sorted_iff sorted_sorted_list_of_set distinct_sorted_list_of_set)


lemma str_int_no_letters: "CHR ''c'' \<notin> set (str_int h) \<and> CHR ''x'' \<notin> set (str_int h)"
  using str_int_chars[of h] by (auto simp: is_digit_def)

section \<open>Facts about the pipeline\<close>

lemma subprocess_run_trace:
  "subprocess_run env cmd w = (r, w') \<Longrightarrow> trace w' = trace w @ [Exec cmd]"
  by (auto simp: subprocess_run_def split: prod.splits)

lemma run_command_trace:
  "run_command env cmd err w = (r, w') \<Longrightarrow> trace w' = trace w @ [Exec cmd]"
  by (auto simp: run_command_def split: prod.splits dest: subprocess_run_trace)

lemma run_command_error: "run_command env cmd err w = (Inl e, w') \<Longrightarrow> e = err"
  by (auto simp: run_command_def split: prod.splits if_splits)

lemma inspect_formats_trace:
  "inspect_formats env url w = (r, w') \<Longrightarrow> trace w' = trace w @ [Exec (inspect_cmd url)]"
  by (auto simp: inspect_formats_def split: prod.splits option.splits if_splits
      dest: subprocess_run_trace)

lemma available_heights_trace:
  "available_heights env url w = (r, w') \<Longrightarrow> trace w' = trace w @ [Exec (inspect_cmd url)]"
  by (auto simp: available_heights_def split: prod.splits sum.splits dest: inspect_formats_trace)

lemma available_heights_errors:
  "available_heights env url w = (Inl e, w') \<Longrightarrow> e = MetadataFetchFailed \<or> e = MetadataParseFailed"
  by (auto simp: available_heights_def inspect_formats_def
      split: prod.splits sum.splits option.splits if_splits)

lemma download_source_trace:
  "download_source env url workdir sel mf w = (r, w') \<Longrightarrow>
     trace w' = trace w @ [Exec (download_cmd url workdir sel mf)]"
  by (auto simp: download_source_def split: prod.splits sum.splits list.splits
      dest: run_command_trace)

lemma glob_source_inside:
  assumes "p \<in> set (glob_source workdir fs)"
  shows "butlast p = workdir \<and> p \<noteq> [] \<and> prefix ''source.'' (last p) \<and> path_exists fs p"
  using assms by (auto simp: glob_source_def path_exists_def)

lemma download_source_inside:
  assumes "download_source env url workdir sel mf w = (Inr source, w')"
  shows "prefix workdir source \<and> path_exists (files w') source \<and>
         butlast source = workdir \<and> source \<noteq> [] \<and> prefix ''source.'' (last source)"
proof -
  have "source \<in> set (glob_source workdir (files w'))"
    using assms by (auto simp: download_source_def split: prod.splits sum.splits list.splits)
  then have g: "butlast source = workdir \<and> source \<noteq> [] \<and> prefix ''source.'' (last source) \<and>
      path_exists (files w') source"
    by (rule glob_source_inside)
  then have "prefix workdir source" by (metis prefixeq_butlast)
  then show ?thesis using g by simp
qed

lemma download_source_errors:
  "download_source env url workdir sel mf w = (Inl e, w') \<Longrightarrow> e = DownloadFailed \<or> e = NoSourceFileProduced"
  by (auto simp: download_source_def split: prod.splits sum.splits list.splits dest: run_command_error)

lemma run_ffmpeg_exists:
  "path_exists (files w) output_path \<Longrightarrow>
     run_ffmpeg env source start end output_path reencode w = (Inl (OutputAlreadyExists output_path), w)"
  by (simp add: run_ffmpeg_def)

lemma run_ffmpeg_absent:
  "\<not> path_exists (files w) output_path \<Longrightarrow>
     run_ffmpeg env source start end output_path reencode w =
       run_command env (ffmpeg_cmd source start end output_path reencode) ExtractionFailed w"
  by (simp add: run_ffmpeg_def)

lemma run_ffmpeg_ok_trace:
  assumes "run_ffmpeg env source start end output_path reencode w = (Inr u, w')"
  shows "trace w' = trace w @ [Exec (ffmpeg_cmd source start end output_path reencode)]"
proof (cases "path_exists (files w) output_path")
  case True then show ?thesis using assms by (simp add: run_ffmpeg_exists)
next
  case False
  then show ?thesis
    using assms by (auto simp: run_ffmpeg_absent dest: run_command_trace)
qed

lemma run_ffmpeg_fail:
  assumes "run_ffmpeg env source start end output_path reencode w = (Inl e, w')"
  shows "(e = OutputAlreadyExists output_path \<and> w' = w \<and> path_exists (files w) output_path) \<or>
         (e = ExtractionFailed \<and> \<not> path_exists (files w) output_path \<and>
          trace w' = trace w @ [Exec (ffmpeg_cmd source start end output_path reencode)])"
proof (cases "path_exists (files w) output_path")
  case True then show ?thesis using assms by (simp add: run_ffmpeg_exists)
next
  case False
  then have r: "run_command env (ffmpeg_cmd source start end output_path reencode) ExtractionFailed w = (Inl e, w')"
    using assms by (simp add: run_ffmpeg_absent)
  then have "e = ExtractionFailed" by (rule run_command_error)
  moreover have "trace w' = trace w @ [Exec (ffmpeg_cmd source start end output_path reencode)]"
    using r by (rule run_command_trace)
  ultimately show ?thesis using False by simp
qed

lemma rmtree_trace: "trace (rmtree tmp w) = trace w @ [Rmtree tmp]"
  by (simp add: rmtree_def)

lemma rmtree_gone: "prefix tmp p \<Longrightarrow> \<not> path_exists (files (rmtree tmp w)) p"
  by (auto simp: rmtree_def path_exists_def)

lemma rmtree_keeps:
  "\<not> prefix tmp p \<Longrightarrow> map_of (files (rmtree tmp w)) p = map_of (files w) p"
proof -
  assume n: "\<not> prefix tmp p"
  have "map_of (filter (\<lambda>entry. \<not> prefix tmp (fst entry)) fs) p = map_of fs p" for fs :: fsys
    using n by (induction fs) auto
  then show ?thesis by (simp add: rmtree_def)
qed

lemma rmtree_keeps_exists:
  "\<not> prefix tmp p \<Longrightarrow> path_exists (files (rmtree tmp w)) p = path_exists (files w) p"
  by (auto simp: rmtree_def path_exists_def)

lemma clip_path_outside:
  "\<not> prefix (joinpath outdir (''youtubeclipper_'' @ n)) (clip_path outdir stamp fmt r)"
  by (simp add: joinpath_def clip_path_def)

lemma mkdtemp_eq:
  "mkdtemp env outdir w =
     (joinpath outdir (''youtubeclipper_'' @ temp_name env),
      w\<lparr>files := (joinpath outdir (''youtubeclipper_'' @ temp_name env), Dir) # files w,
        trace := trace w @ [Mkdtemp (joinpath outdir (''youtubeclipper_'' @ temp_name env))]\<rparr>)"
  by (simp add: mkdtemp_def Let_def)

lemma mkdir_p_trace: "mkdir_p p w = (r, w') \<Longrightarrow> trace w' = trace w @ [MkdirP p]"
  by (auto simp: mkdir_p_def Let_def split: if_splits)

lemma clip_url_reaches:
  assumes "ensure_dependencies env = Inr ()" "0 < q" "mkdir_p outdir w = (Inr (), w1)"
    and "mkdtemp env outdir w1 = (tmp, w2)"
  shows "clip_url env url ranges outdir reencode fmt q w =
     (fst (clip_url_body env url ranges outdir reencode fmt q tmp w2),
      rmtree tmp (snd (clip_url_body env url ranges outdir reencode fmt q tmp w2)))"
  using assms by (simp add: clip_url_def split: prod.splits)

lemma clip_loop_run:
  "clip_loop env source outdir stamp fmt reencode ranges outs w = (res, w') \<Longrightarrow>
     \<exists>k\<le>length ranges.
       trace w' = trace w @
         map (\<lambda>r. Exec (ffmpeg_cmd source (fst r) (snd r) (clip_path outdir stamp fmt r) reencode))
           (take k ranges) \<and>
       ((k = length ranges \<and> res = Inr (outs @ map (clip_path outdir stamp fmt) ranges)) \<or>
        (k < length ranges \<and> res = Inl (OutputAlreadyExists (clip_path outdir stamp fmt (ranges ! k))) \<and>
           path_exists (files w') (clip_path outdir stamp fmt (ranges ! k))) \<or>
        (0 < k \<and> res = Inl ExtractionFailed))"
proof (induction ranges arbitrary: outs w)
  case Nil
  then show ?case by simp
next
  case (Cons r rs)
  let ?p = "clip_path outdir stamp fmt r"
  let ?c = "\<lambda>r. Exec (ffmpeg_cmd source (fst r) (snd r) (clip_path outdir stamp fmt r) reencode)"
  obtain x w1 where rf: "run_ffmpeg env source (fst r) (snd r) ?p reencode w = (x, w1)"
    by (cases "run_ffmpeg env source (fst r) (snd r) ?p reencode w")
  show ?case
  proof (cases x)
    case (Inl e)
    then have eq: "res = Inl e" "w' = w1" using Cons.prems rf by (simp_all add: Let_def)
    from run_ffmpeg_fail[OF rf[unfolded Inl]] show ?thesis
    proof
      assume "e = OutputAlreadyExists ?p \<and> w1 = w \<and> path_exists (files w) ?p"
      then show ?thesis using eq by (intro exI[of _ 0]) simp
    next
      assume "e = ExtractionFailed \<and> \<not> path_exists (files w) ?p \<and>
          trace w1 = trace w @ [Exec (ffmpeg_cmd source (fst r) (snd r) ?p reencode)]"
      then show ?thesis using eq by (intro exI[of _ 1]) simp
    qed
  next
    case (Inr u)
    then have t1: "trace w1 = trace w @ [?c r]" using rf run_ffmpeg_ok_trace by fastforce
    have rest: "clip_loop env source outdir stamp fmt reencode rs (outs @ [?p]) w1 = (res, w')"
      using Cons.prems rf Inr by (simp add: Let_def)
    from Cons.IH[OF rest] obtain k where k: "k \<le> length rs"
      "trace w' = trace w1 @ map ?c (take k rs)"
      "(k = length rs \<and> res = Inr ((outs @ [?p]) @ map (clip_path outdir stamp fmt) rs)) \<or>
        (k < length rs \<and> res = Inl (OutputAlreadyExists (clip_path outdir stamp fmt (rs ! k))) \<and>
           path_exists (files w') (clip_path outdir stamp fmt (rs ! k))) \<or>
        (0 < k \<and> res = Inl ExtractionFailed)"
      by blast
    show ?thesis using k t1 by (intro exI[of _ "Suc k"]) auto
  qed
qed

lemma clip_loop_append:
  "clip_loop env source outdir stamp fmt reencode (pre @ post) outs w =
     (case clip_loop env source outdir stamp fmt reencode pre outs w of
        (Inl e, w1) \<Rightarrow> (Inl e, w1)
      | (Inr outs1, w1) \<Rightarrow> clip_loop env source outdir stamp fmt reencode post outs1 w1)"
  by (induction pre arbitrary: outs w) (auto simp: Let_def split: prod.splits sum.splits)

lemma clip_loop_ext:
  "clip_loop env source outdir stamp fmt reencode ranges outs w = (res, w') \<Longrightarrow> \<exists>t. trace w' = trace w @ t"
  using clip_loop_run by blast

lemma clip_url_body_unfold:
  assumes "available_heights env url w2 = (Inr (h264, allh), w3)"
  shows "clip_url_body env url ranges outdir reencode fmt q tmp w2 =
     (if q \<notin> set (if reencode then allh else h264) then
        (if reencode then (Inl (QualityUnavailable q allh), w3)
         else (Inl (QualityUnavailableFastPath q h264 allh), w3))
      else case download_source env url tmp (fst (format_selector q reencode))
                  (snd (format_selector q reencode)) w3 of
             (Inl e, w4) \<Rightarrow> (Inl e, w4)
           | (Inr source, w4) \<Rightarrow>
               if \<not> reencode \<and> lstrip_dot (path_suffix source) \<noteq> fmt
               then (Inl (OutputFormatMismatch (lstrip_dot (path_suffix source)) fmt), w4)
               else clip_loop env source outdir (now_stamp env) fmt reencode ranges [] w4)"
  using assms by (simp add: clip_url_body_def Let_def split: prod.splits)

lemma clip_url_body_ext:
  assumes "clip_url_body env url ranges outdir reencode fmt q tmp w2 = (res, w')"
  shows "\<exists>t. trace w' = trace w2 @ t"
proof -
  obtain x w3 where ah: "available_heights env url w2 = (x, w3)"
    by (cases "available_heights env url w2")
  have t3: "trace w3 = trace w2 @ [Exec (inspect_cmd url)]" using ah by (rule available_heights_trace)
  show ?thesis
  proof (cases x)
    case (Inl e)
    then have "w' = w3" using assms ah by (simp add: clip_url_body_def)
    then show ?thesis using t3 by blast
  next
    case (Inr hs)
    obtain h264 allh where hs: "hs = (h264, allh)" by (cases hs)
    note u = clip_url_body_unfold[OF ah[unfolded Inr hs], of ranges outdir reencode fmt q tmp]
    show ?thesis
    proof (cases "q \<notin> set (if reencode then allh else h264)")
      case True
      then have "w' = w3" using assms u by (auto split: if_splits)
      then show ?thesis using t3 by blast
    next
      case False
      obtain y w4 where ds: "download_source env url tmp (fst (format_selector q reencode))
                  (snd (format_selector q reencode)) w3 = (y, w4)"
        by (cases "download_source env url tmp (fst (format_selector q reencode))
                  (snd (format_selector q reencode)) w3")
      have t4: "\<exists>t. trace w4 = trace w2 @ t" using download_source_trace[OF ds] t3 by simp
      show ?thesis
      proof (cases y)
        case (Inl e)
        then have "w' = w4" using assms u False ds by simp
        then show ?thesis using t4 by blast
      next
        case (Inr source)
        show ?thesis
        proof (cases "\<not> reencode \<and> lstrip_dot (path_suffix source) \<noteq> fmt")
          case True
          then have "w' = w4" using assms u False ds Inr by auto
          then show ?thesis using t4 by blast
        next
          case F: False
          then have "clip_loop env source outdir (now_stamp env) fmt reencode ranges [] w4 = (res, w')"
            using assms u False ds Inr by auto
          then obtain t where "trace w' = trace w4 @ t" using clip_loop_ext by blast
          then show ?thesis using t4 by auto
        qed
      qed
    qed
  qed
qed

lemma pipeline_exn_distinct:
  "OutputAlreadyExists p \<noteq> ExtractionFailed"
  by (simp add: OutputAlreadyExists_def ExtractionFailed_def)

lemma clip_url_after_query:
  assumes "ensure_dependencies env = Inr ()" "0 < q" "mkdir_p outdir w = (Inr (), w1)"
    and "mkdtemp env outdir w1 = (tmp, w2)"
    and "available_heights env url w2 = (Inr (h264, allh), w3)"
  shows "clip_url env url ranges outdir reencode fmt q w =
     (if q \<notin> set (if reencode then allh else h264) then
        (if reencode then (Inl (QualityUnavailable q allh), rmtree tmp w3)
         else (Inl (QualityUnavailableFastPath q h264 allh), rmtree tmp w3))
      else case download_source env url tmp (fst (format_selector q reencode))
                  (snd (format_selector q reencode)) w3 of
             (Inl e, w4) \<Rightarrow> (Inl e, rmtree tmp w4)
           | (Inr source, w4) \<Rightarrow>
               if \<not> reencode \<and> lstrip_dot (path_suffix source) \<noteq> fmt
               then (Inl (OutputFormatMismatch (lstrip_dot (path_suffix source)) fmt), rmtree tmp w4)
               else (fst (clip_loop env source outdir (now_stamp env) fmt reencode ranges [] w4),
                     rmtree tmp (snd (clip_loop env source outdir (now_stamp env) fmt reencode ranges [] w4))))"
  by (simp add: clip_url_reaches[OF assms(1-4)] clip_url_body_unfold[OF assms(5)]
      split: prod.splits sum.splits)

lemma trace_after_query:
  assumes "mkdir_p outdir w = (Inr (), w1)" "mkdtemp env outdir w1 = (tmp, w2)"
    and "available_heights env url w2 = (r, w3)"
  shows "trace w3 = trace w @ [MkdirP outdir, Mkdtemp tmp, Exec (inspect_cmd url)]"
proof -
  have "trace w1 = trace w @ [MkdirP outdir]" using assms(1) by (rule mkdir_p_trace)
  moreover have "trace w2 = trace w1 @ [Mkdtemp tmp]" using assms(2) by (auto simp: mkdtemp_eq)
  moreover have "trace w3 = trace w2 @ [Exec (inspect_cmd url)]" using assms(3) by (rule available_heights_trace)
  ultimately show ?thesis by simp
qed

lemma requested_distinct:
  "QualityUnavailable q a \<noteq> DownloadFailed" "QualityUnavailable q a \<noteq> NoSourceFileProduced"
  "QualityUnavailable q a \<noteq> OutputFormatMismatch s f" "QualityUnavailable q a \<noteq> OutputAlreadyExists p"
  "QualityUnavailable q a \<noteq> ExtractionFailed"
  "QualityUnavailableFastPath q a b \<noteq> DownloadFailed" "QualityUnavailableFastPath q a b \<noteq> NoSourceFileProduced"
  "QualityUnavailableFastPath q a b \<noteq> OutputFormatMismatch s f"
  "QualityUnavailableFastPath q a b \<noteq> OutputAlreadyExists p"
  "QualityUnavailableFastPath q a b \<noteq> ExtractionFailed"
  by (simp_all add: QualityUnavailable_def QualityUnavailableFastPath_def DownloadFailed_def
      NoSourceFileProduced_def OutputFormatMismatch_def OutputAlreadyExists_def ExtractionFailed_def)

lemma clip_loop_errors:
  "clip_loop env source outdir stamp fmt reencode ranges outs w = (Inl e, w') \<Longrightarrow>
     (\<exists>p. e = OutputAlreadyExists p) \<or> e = ExtractionFailed"
  using clip_loop_run[of env source outdir stamp fmt reencode ranges outs w "Inl e" w'] by auto

lemma trace_after_download:
  assumes "mkdir_p outdir w = (Inr (), w1)" "mkdtemp env outdir w1 = (tmp, w2)"
    and "available_heights env url w2 = (r, w3)"
    and "download_source env url tmp sel mf w3 = (y, w4)"
  shows "trace w4 = trace w @ [MkdirP outdir, Mkdtemp tmp, Exec (inspect_cmd url),
           Exec (download_cmd url tmp sel mf)]"
  using trace_after_query[OF assms(1-3)] download_source_trace[OF assms(4)] by simp

lemma source_suffix:
  assumes "source \<noteq> []" "prefix ''source.'' (last source)"
  shows "lstrip_dot (path_suffix source) = rev (takeWhile (\<lambda>c. c \<noteq> CHR ''.'') (rev (last source)))"
proof -
  let ?name = "last source"
  let ?after = "rev (takeWhile (\<lambda>c. c \<noteq> CHR ''.'') (rev ?name))"
  obtain rest where n: "?name = ''source.'' @ rest" using assms(2) by (auto simp: prefix_def)
  have dot: "CHR ''.'' \<in> set ?name" using n by simp
  have nodot: "CHR ''.'' \<notin> set ?after" by (auto dest: set_takeWhileD)
  have "length (takeWhile (\<lambda>c. c \<noteq> CHR ''.'') (rev rest)) \<le> length rest"
    by (metis length_rev length_takeWhile_le)
  moreover have "takeWhile (\<lambda>c. c \<noteq> CHR ''.'') (rev ?name) = takeWhile (\<lambda>c. c \<noteq> CHR ''.'') (rev rest)"
    using n by (simp add: takeWhile_append2 takeWhile_tail)
  ultimately have len: "length ?after + 1 < length ?name" using n by simp
  show ?thesis
  proof (cases "?after = []")
    case True
    then show ?thesis using assms(1) by (simp add: path_suffix_def lstrip_dot_def Let_def)
  next
    case False
    then have "path_suffix source = CHR ''.'' # ?after"
      using assms(1) dot len by (simp add: path_suffix_def Let_def)
    moreover have "dropWhile (\<lambda>c. c = CHR ''.'') ?after = ?after"
      using nodot False by (cases ?after) auto
    ultimately show ?thesis by (simp add: lstrip_dot_def)
  qed
qed

lemma clip_url_success_outputs:
  assumes "clip_url env url ranges outdir reencode fmt q w = (Inr outs, w')"
  shows "outs = map (clip_path outdir (now_stamp env) fmt) ranges"
proof -
  have d: "ensure_dependencies env = Inr ()" and q: "0 < q"
    using assms by (auto simp: clip_url_def split: sum.splits if_splits)
  obtain x w1 where mk: "mkdir_p outdir w = (x, w1)" by (cases "mkdir_p outdir w")
  have x: "x = Inr ()" using assms d q mk by (cases x) (auto simp: clip_url_def)
  obtain tmp w2 where md: "mkdtemp env outdir w1 = (tmp, w2)" by (cases "mkdtemp env outdir w1")
  obtain y w3 where ah: "available_heights env url w2 = (y, w3)" by (cases "available_heights env url w2")
  note r = clip_url_reaches[OF d q mk[unfolded x] md, of url ranges reencode fmt]
  show ?thesis
  proof (cases y)
    case (Inl e)
    then show ?thesis using assms r ah by (simp add: clip_url_body_def)
  next
    case (Inr hs)
    obtain h264 allh where hs: "hs = (h264, allh)" by (cases hs)
    note u = clip_url_after_query[OF d q mk[unfolded x] md ah[unfolded Inr hs], of ranges reencode fmt]
    have m: "q \<in> set (if reencode then allh else h264)"
      using assms u by (auto split: if_splits)
    obtain z w4 where ds: "download_source env url tmp (fst (format_selector q reencode))
        (snd (format_selector q reencode)) w3 = (z, w4)"
      by (cases "download_source env url tmp (fst (format_selector q reencode))
        (snd (format_selector q reencode)) w3")
    obtain source where z: "z = Inr source" using assms u m ds by (cases z) auto
    have nm: "\<not> (\<not> reencode \<and> lstrip_dot (path_suffix source) \<noteq> fmt)"
      using assms u m ds z by (auto split: if_splits)
    then have "fst (clip_loop env source outdir (now_stamp env) fmt reencode ranges [] w4) = Inr outs"
      using assms u m ds z by (auto split: if_splits)
    then obtain w5 where "clip_loop env source outdir (now_stamp env) fmt reencode ranges [] w4 = (Inr outs, w5)"
      by (metis prod.collapse)
    from clip_loop_run[OF this] show ?thesis by auto
  qed
qed

section \<open>Facts about the double\<close>

lemma double_deps: "ensure_dependencies double_env = Inr ()"
  by code_simp

lemma double_mkdir: "mkdir_p [''out''] double_world = (Inr (), double_w1)"
  by code_simp

lemma double_mkdtemp: "mkdtemp double_env [''out''] double_w1 = (double_tmp, double_w2)"
  by code_simp

lemma double_heights:
  "available_heights double_env ''u'' double_w2 = (Inr ([720], [480, 720, 1080]), double_w3)"
  by code_simp

lemma double_download:
  "download_source double_env ''u'' double_tmp (fst (format_selector 720 False))
     (snd (format_selector 720 False)) double_w3
   = (Inr (double_tmp @ [''source.mp4'']), double_w4)"
  by code_simp

lemma double_download_reencode:
  "download_source double_env ''u'' double_tmp (fst (format_selector 1080 True))
     (snd (format_selector 1080 True)) double_w3
   = (Inr (double_tmp @ [''source.webm'']), double_w4r)"
  by code_simp

lemma clip_loop_fail_at:
  assumes "clip_loop env source outdir stamp fmt reencode pre outs w = (Inr outs1, wk)"
    and "run_ffmpeg env source (fst r) (snd r) (clip_path outdir stamp fmt r) reencode wk = (Inl e, wx)"
  shows "outs1 = outs @ map (clip_path outdir stamp fmt) pre \<and>
         clip_loop env source outdir stamp fmt reencode (pre @ r # post) outs w = (Inl e, wx)"
proof -
  have "outs1 = outs @ map (clip_path outdir stamp fmt) pre"
    using clip_loop_run[OF assms(1)] by auto
  moreover have "clip_loop env source outdir stamp fmt reencode (pre @ r # post) outs w = (Inl e, wx)"
    using assms by (simp add: clip_loop_append Let_def)
  ultimately show ?thesis by simp
qed

section \<open>Claims about parsing\<close>

text \<open>
  C9, as stated, fails: the decimal text of \<open>10 ^ 4300\<close>, a one followed by 4300 zeros,
  denotes a non-negative integer, but \<^verbatim>\<open>int()\<close> refuses its 4301 digits and \<open>parse_time\<close>
  fails with \<open>InvalidTimestamp\<close>.
\<close>

theorem parse_time_counterexample:
  "(0::int) \<le> 10 ^ 4300 \<and>
   str_int (10 ^ 4300) = CHR ''1'' # replicate 4300 (CHR ''0'') \<and>
   parse_time (str_int (10 ^ 4300)) = Inl InvalidTimestamp"
proof -
  have a: "(0::int) \<le> 10 ^ 4300" by (rule zero_le_power) simp
  have b: "str_int (10 ^ 4300) = CHR ''1'' # replicate 4300 (CHR ''0'')" by (rule str_int_pow10)
  have l: "int_max_str_digits \<le> 4300" by (simp add: int_max_str_digits_def)
  have c: "parse_time (str_int (10 ^ 4300)) = Inl InvalidTimestamp"
    by (rule parse_time_str_int_big[OF pow10_big[OF l]])
  show ?thesis by (intro conjI a b c)
qed

text \<open>
  C9, amended: \<open>parse_time\<close> trims whitespace and returns \<open>n\<close> for every text that \<^verbatim>\<open>int()\<close>
  reads as a non-negative integer \<open>n\<close>: for every digit string of at most 4300 digits
  between blanks, leading zeros counted, in particular for \<^verbatim>\<open>str(n)\<close> when
  \<open>0 \<le> n < 10 ^ 4300\<close>, and for \<^verbatim>\<open>"120"\<close>. It fails with \<open>InvalidTimestamp\<close> whenever the text
  contains a colon, is not an integer literal (\<^verbatim>\<open>"2:00"\<close>, \<^verbatim>\<open>"abc"\<close>) or has more than 4300
  digits, and with \<open>NegativeTimestamp\<close>, a different error, whenever the text denotes a
  negative integer of at most 4300 digits (\<^verbatim>\<open>"-5"\<close>).
\<close>

theorem parse_time_spec:
  "(py_int s = Some n \<and> 0 \<le> n \<longrightarrow> parse_time s = Inr n) \<and>
   (s \<noteq> [] \<and> (\<forall>c\<in>set s. is_digit c) \<and> (\<forall>c\<in>set ws1. is_space c) \<and> (\<forall>c\<in>set ws2. is_space c) \<and>
    length s \<le> int_max_str_digits
      \<longrightarrow> parse_time (ws1 @ s @ ws2) = Inr (int (foldl dstep 0 s))) \<and>
   (s \<noteq> [] \<and> (\<forall>c\<in>set s. is_digit c) \<and> (\<forall>c\<in>set ws1. is_space c) \<and> (\<forall>c\<in>set ws2. is_space c) \<and>
    int_max_str_digits < length s
      \<longrightarrow> parse_time (ws1 @ s @ ws2) = Inl InvalidTimestamp) \<and>
   ((\<forall>c\<in>set ws1. is_space c) \<and> (\<forall>c\<in>set ws2. is_space c) \<and> 0 \<le> n \<and>
    n < 10 ^ int_max_str_digits
      \<longrightarrow> parse_time (ws1 @ str_int n @ ws2) = Inr n) \<and>
   ((\<forall>c\<in>set ws1. is_space c) \<and> (\<forall>c\<in>set ws2. is_space c) \<and>
    10 ^ int_max_str_digits \<le> \<bar>n\<bar>
      \<longrightarrow> parse_time (ws1 @ str_int n @ ws2) = Inl InvalidTimestamp) \<and>
   int_max_str_digits = 4300 \<and>
   parse_time ''120'' = Inr 120 \<and>
   (CHR '':'' \<in> set s \<longrightarrow> parse_time s = Inl InvalidTimestamp) \<and>
   (py_int s = None \<longrightarrow> parse_time s = Inl InvalidTimestamp) \<and>
   parse_time ''2:00'' = Inl InvalidTimestamp \<and>
   parse_time ''abc'' = Inl InvalidTimestamp \<and>
   (py_int s = Some n \<and> n < 0 \<longrightarrow> parse_time s = Inl NegativeTimestamp) \<and>
   ((\<forall>c\<in>set ws1. is_space c) \<and> (\<forall>c\<in>set ws2. is_space c) \<and> n < 0 \<and>
    - (10 ^ int_max_str_digits) < n
      \<longrightarrow> parse_time (ws1 @ str_int n @ ws2) = Inl NegativeTimestamp) \<and>
   parse_time ''-5'' = Inl NegativeTimestamp \<and>
   InvalidTimestamp \<noteq> NegativeTimestamp"
proof -
  have c1: "py_int s = Some n \<and> 0 \<le> n \<longrightarrow> parse_time s = Inr n"
    by (simp add: parse_time_eq)
  have d1: "s \<noteq> [] \<and> (\<forall>c\<in>set s. is_digit c) \<and> (\<forall>c\<in>set ws1. is_space c) \<and> (\<forall>c\<in>set ws2. is_space c) \<and>
    length s \<le> int_max_str_digits
      \<longrightarrow> parse_time (ws1 @ s @ ws2) = Inr (int (foldl dstep 0 s))"
    by (simp add: digits_text)
  have d2: "s \<noteq> [] \<and> (\<forall>c\<in>set s. is_digit c) \<and> (\<forall>c\<in>set ws1. is_space c) \<and> (\<forall>c\<in>set ws2. is_space c) \<and>
    int_max_str_digits < length s
      \<longrightarrow> parse_time (ws1 @ s @ ws2) = Inl InvalidTimestamp"
    by (simp add: digits_text)
  have c2: "(\<forall>c\<in>set ws1. is_space c) \<and> (\<forall>c\<in>set ws2. is_space c) \<and> 0 \<le> n \<and>
    n < 10 ^ int_max_str_digits
      \<longrightarrow> parse_time (ws1 @ str_int n @ ws2) = Inr n"
    by (simp add: parse_time_eq py_int_padded)
  have c2b: "(\<forall>c\<in>set ws1. is_space c) \<and> (\<forall>c\<in>set ws2. is_space c) \<and>
    10 ^ int_max_str_digits \<le> \<bar>n\<bar>
      \<longrightarrow> parse_time (ws1 @ str_int n @ ws2) = Inl InvalidTimestamp"
    by (simp add: parse_time_eq py_int_padded)
  have lim: "int_max_str_digits = 4300" by (rule int_max_str_digits_def)
  have c3: "parse_time ''120'' = Inr 120" by code_simp
  have c4: "CHR '':'' \<in> set s \<longrightarrow> parse_time s = Inl InvalidTimestamp"
    by (simp add: parse_time_colon)
  have c5: "py_int s = None \<longrightarrow> parse_time s = Inl InvalidTimestamp"
    by (simp add: parse_time_eq)
  have c6: "parse_time ''2:00'' = Inl InvalidTimestamp" by code_simp
  have c7: "parse_time ''abc'' = Inl InvalidTimestamp" by code_simp
  have c8: "py_int s = Some n \<and> n < 0 \<longrightarrow> parse_time s = Inl NegativeTimestamp"
    by (simp add: parse_time_eq)
  have c9: "(\<forall>c\<in>set ws1. is_space c) \<and> (\<forall>c\<in>set ws2. is_space c) \<and> n < 0 \<and>
    - (10 ^ int_max_str_digits) < n
      \<longrightarrow> parse_time (ws1 @ str_int n @ ws2) = Inl NegativeTimestamp"
    by (simp add: parse_time_eq py_int_padded)
  have c10: "parse_time ''-5'' = Inl NegativeTimestamp" by code_simp
  show ?thesis by (intro conjI c1 d1 d2 c2 c2b lim c3 c4 c5 c6 c7 c8 c9 c10 exn_distinct)
qed

theorem parse_time_spec_witness:
  "py_int ''+1_000 '' = Some 1000 \<and> parse_time ''+1_000 '' = Inr 1000 \<and>
   list_all is_digit ''007'' \<and> list_all is_space ''  '' \<and> length ''007'' \<le> int_max_str_digits \<and>
   parse_time (''  '' @ ''007'' @ ''  '') = Inr 7 \<and>
   list_all is_digit (str_int (10 ^ 4300)) \<and> int_max_str_digits < length (str_int (10 ^ 4300)) \<and>
   parse_time (''  '' @ str_int (10 ^ 4300) @ ''  '') = Inl InvalidTimestamp \<and>
   (42::int) < 10 ^ int_max_str_digits \<and>
   parse_time (''  '' @ str_int 42 @ ''  '') = Inr 42 \<and>
   (10::int) ^ int_max_str_digits \<le> \<bar>- (10 ^ 4300)\<bar> \<and>
   parse_time (''  '' @ str_int (- (10 ^ 4300)) @ ''  '') = Inl InvalidTimestamp \<and>
   CHR '':'' \<in> set ''1:30'' \<and> parse_time ''1:30'' = Inl InvalidTimestamp \<and>
   py_int ''1__0'' = None \<and> parse_time ''1__0'' = Inl InvalidTimestamp \<and>
   py_int '' -07'' = Some (- 7) \<and> parse_time '' -07'' = Inl NegativeTimestamp \<and>
   - (10 ^ int_max_str_digits) < (- 42 :: int) \<and>
   parse_time (''  '' @ str_int (- 42) @ ''  '') = Inl NegativeTimestamp"
proof -
  have h1: "py_int ''+1_000 '' = Some 1000" by code_simp
  have p1: "(0::int) \<le> 1000" by simp
  have h2: "\<forall>c\<in>set ''  ''. is_space c" by code_simp
  have h3: "CHR '':'' \<in> set ''1:30''" by simp
  have h4: "py_int ''1__0'' = None" by code_simp
  have h5: "py_int '' -07'' = Some (- 7)" by code_simp
  have n5: "(- 7 :: int) < 0" by simp
  have g1: "''007'' \<noteq> []" by simp
  have g2: "\<forall>c\<in>set ''007''. is_digit c" by code_simp
  have g3: "length ''007'' \<le> int_max_str_digits" by (simp add: int_max_str_digits_def)
  have g4: "int (foldl dstep 0 ''007'') = 7" by code_simp
  have l: "int_max_str_digits \<le> 4300" by (simp add: int_max_str_digits_def)
  note pt = pow10_text[of 4300]
  have b1: "str_int (10 ^ 4300) \<noteq> []" using pt by (rule conjunct1)
  have b2: "\<forall>c\<in>set (str_int (10 ^ 4300)). is_digit c" using pt by blast
  have b3: "int_max_str_digits < length (str_int (10 ^ 4300))" using l by (rule pow10_long)
  have s1: "(0::int) \<le> 42" by simp
  have s2: "(42::int) < 10 ^ int_max_str_digits" using small_bound[of 42] by simp
  have s3: "(- 42 :: int) < 0" by simp
  have s4: "- (10 ^ int_max_str_digits) < (- 42 :: int)" using small_bound[of 42] by simp
  have big: "(10::int) ^ int_max_str_digits \<le> \<bar>- (10 ^ 4300)\<bar>"
    using pow10_big[OF l] by (simp only: abs_minus_cancel)
  have r1: "parse_time ''+1_000 '' = Inr 1000"
    using parse_time_spec[where s = "''+1_000 ''" and n = 1000] h1 p1 by blast
  have "parse_time (''  '' @ ''007'' @ ''  '') = Inr (int (foldl dstep 0 ''007''))"
    using parse_time_spec[where s = "''007''" and ?ws1.0 = "''  ''" and ?ws2.0 = "''  ''"] g1 g2 h2 g3
    by blast
  then have r2: "parse_time (''  '' @ ''007'' @ ''  '') = Inr 7" by (simp only: g4)
  have r3: "parse_time (''  '' @ str_int (10 ^ 4300) @ ''  '') = Inl InvalidTimestamp"
    using parse_time_spec[where s = "str_int (10 ^ 4300)" and ?ws1.0 = "''  ''" and ?ws2.0 = "''  ''"]
      b1 b2 h2 b3
    by blast
  have r4: "parse_time (''  '' @ str_int 42 @ ''  '') = Inr 42"
    using parse_time_spec[where n = 42 and ?ws1.0 = "''  ''" and ?ws2.0 = "''  ''"] h2 s1 s2 by blast
  have r5: "parse_time (''  '' @ str_int (- (10 ^ 4300)) @ ''  '') = Inl InvalidTimestamp"
    using parse_time_spec[where n = "- (10 ^ 4300)" and ?ws1.0 = "''  ''" and ?ws2.0 = "''  ''"] h2 big
    by blast
  have r6: "parse_time ''1:30'' = Inl InvalidTimestamp"
    using parse_time_spec[where s = "''1:30''"] h3 by blast
  have r7: "parse_time ''1__0'' = Inl InvalidTimestamp"
    using parse_time_spec[where s = "''1__0''"] h4 by blast
  have r8: "parse_time '' -07'' = Inl NegativeTimestamp"
    using parse_time_spec[where s = "'' -07''" and n = "- 7"] h5 n5 by blast
  have r9: "parse_time (''  '' @ str_int (- 42) @ ''  '') = Inl NegativeTimestamp"
    using parse_time_spec[where n = "- 42" and ?ws1.0 = "''  ''" and ?ws2.0 = "''  ''"] h2 s3 s4 by blast
  have g2': "list_all is_digit ''007''" using g2 by (simp only: list_all_iff)
  have h2': "list_all is_space ''  ''" using h2 by (simp only: list_all_iff)
  have b2': "list_all is_digit (str_int (10 ^ 4300))" using b2 by (simp only: list_all_iff)
  show ?thesis
    by (intro conjI h1 r1 g2' h2' g3 r2 b2' b3 r3 s2 r4 big r5 h3 r6 h4 r7 h5 r8 s4 r9)
qed

text \<open>
  C8, as stated, fails: \<open>0 \<le> 0 < 10 ^ 4300\<close>, but the text \<^verbatim>\<open>"a-b"\<close> of this range has an end
  of 4301 digits, which \<^verbatim>\<open>int()\<close> refuses, and \<open>parse_clip_ranges\<close> fails with
  \<open>InvalidTimestamp\<close>.
\<close>

theorem parse_clip_ranges_counterexample:
  "(0::int) \<le> 0 \<and> (0::int) < 10 ^ 4300 \<and>
   range_text (0, 10 ^ 4300) = ''0-1'' @ replicate 4300 (CHR ''0'') \<and>
   parse_clip_ranges (range_text (0, 10 ^ 4300)) = Inl InvalidTimestamp"
proof -
  have a: "(0::int) \<le> 0" by simp
  have b: "(0::int) < 10 ^ 4300" by (rule zero_less_power) simp
  have z: "str_int 0 = ''0''" by code_simp
  have c: "range_text (0, 10 ^ 4300) = ''0-1'' @ replicate 4300 (CHR ''0'')"
    by (simp only: range_text_def fst_conv snd_conv z str_int_pow10 append_Cons append_Nil)
  have l: "int_max_str_digits \<le> 4300" by (simp add: int_max_str_digits_def)
  have d: "parse_clip_ranges (range_text (0, 10 ^ 4300)) = Inl InvalidTimestamp"
    by (rule range_text_big[OF a zero_small pow10_big[OF l]])
  show ?thesis by (intro conjI a b c d)
qed

text \<open>
  C8, amended: \<open>parse_clip_ranges\<close> splits on commas, trims the pieces and drops the empty
  ones. It fails with \<open>NoRangesProvided\<close> exactly when no piece is left. At the first item
  that does not parse, it fails: with \<open>MalformedRange\<close> when the item has no \<^verbatim>\<open>-\<close>, with the
  error of \<open>parse_time\<close> on the start or the end text, or with \<open>NonPositiveDuration\<close> when
  \<open>end \<le> start\<close>. The text \<^verbatim>\<open>"a-b"\<close> with \<open>0 \<le> a < b < 10 ^ 4300\<close> yields \<open>[(a, b)]\<close>; a
  comma-separated list of such texts yields the ranges in input order, duplicates and
  overlaps included (\<^verbatim>\<open>"10-30,45-50"\<close> yields \<open>[(10, 30), (45, 50)]\<close>); with an end of more
  than 4300 digits the text fails with \<open>InvalidTimestamp\<close>. When the parse succeeds,
  the result holds the ranges of the items in order and each item has exactly one \<^verbatim>\<open>-\<close>.
\<close>

theorem parse_clip_ranges_spec:
  "((parse_clip_ranges r = Inl NoRangesProvided)
      = (\<forall>seg\<in>set (str_split (CHR '','') r). strip seg = [])) \<and>
   (range_items r = pre @ item # post \<and> parse_items pre [] = Inr ps \<and> CHR ''-'' \<notin> set item
      \<longrightarrow> parse_clip_ranges r = Inl (MalformedRange item)) \<and>
   (range_items r = pre @ item # post \<and> parse_items pre [] = Inr ps \<and> CHR ''-'' \<in> set item \<and>
    parse_time (fst (split_first (CHR ''-'') item)) = Inl e
      \<longrightarrow> parse_clip_ranges r = Inl e) \<and>
   (range_items r = pre @ item # post \<and> parse_items pre [] = Inr ps \<and> CHR ''-'' \<in> set item \<and>
    parse_time (fst (split_first (CHR ''-'') item)) = Inr a \<and>
    parse_time (snd (split_first (CHR ''-'') item)) = Inl e
      \<longrightarrow> parse_clip_ranges r = Inl e) \<and>
   (range_items r = pre @ item # post \<and> parse_items pre [] = Inr ps \<and> CHR ''-'' \<in> set item \<and>
    parse_time (fst (split_first (CHR ''-'') item)) = Inr a \<and>
    parse_time (snd (split_first (CHR ''-'') item)) = Inr b \<and> b \<le> a
      \<longrightarrow> parse_clip_ranges r = Inl NonPositiveDuration) \<and>
   (0 \<le> a \<and> a < b \<and> b < 10 ^ int_max_str_digits
      \<longrightarrow> parse_clip_ranges (range_text (a, b)) = Inr [(a, b)]) \<and>
   (0 \<le> a \<and> a < 10 ^ int_max_str_digits \<and> 10 ^ int_max_str_digits \<le> b
      \<longrightarrow> parse_clip_ranges (range_text (a, b)) = Inl InvalidTimestamp) \<and>
   int_max_str_digits = 4300 \<and>
   (rs \<noteq> [] \<and> (\<forall>x\<in>set rs. 0 \<le> fst x \<and> fst x < snd x \<and> snd x < 10 ^ int_max_str_digits)
      \<longrightarrow> parse_clip_ranges (str_join '','' (map range_text rs)) = Inr rs) \<and>
   parse_clip_ranges ''10-30,45-50'' = Inr [(10, 30), (45, 50)] \<and>
   (parse_clip_ranges r = Inr rs
      \<longrightarrow> list_all2 (\<lambda>item p. parse_items [item] [] = Inr [p]) (range_items r) rs \<and>
          (\<forall>item\<in>set (range_items r). count_list item (CHR ''-'') = 1)) \<and>
   parse_clip_ranges '''' = Inl NoRangesProvided \<and>
   parse_clip_ranges '' , '' = Inl NoRangesProvided"
proof -
  have c2: "range_items r = pre @ item # post \<and> parse_items pre [] = Inr ps \<and> CHR ''-'' \<notin> set item
      \<longrightarrow> parse_clip_ranges r = Inl (MalformedRange item)"
    by (auto simp: parse_clip_ranges_at parse_items_one)
  have c3: "range_items r = pre @ item # post \<and> parse_items pre [] = Inr ps \<and> CHR ''-'' \<in> set item \<and>
    parse_time (fst (split_first (CHR ''-'') item)) = Inl e
      \<longrightarrow> parse_clip_ranges r = Inl e"
    by (auto simp: parse_clip_ranges_at parse_items_one)
  have c4: "range_items r = pre @ item # post \<and> parse_items pre [] = Inr ps \<and> CHR ''-'' \<in> set item \<and>
    parse_time (fst (split_first (CHR ''-'') item)) = Inr a \<and>
    parse_time (snd (split_first (CHR ''-'') item)) = Inl e
      \<longrightarrow> parse_clip_ranges r = Inl e"
    by (auto simp: parse_clip_ranges_at parse_items_one)
  have c5: "range_items r = pre @ item # post \<and> parse_items pre [] = Inr ps \<and> CHR ''-'' \<in> set item \<and>
    parse_time (fst (split_first (CHR ''-'') item)) = Inr a \<and>
    parse_time (snd (split_first (CHR ''-'') item)) = Inr b \<and> b \<le> a
      \<longrightarrow> parse_clip_ranges r = Inl NonPositiveDuration"
    by (auto simp: parse_clip_ranges_at parse_items_one)
  have gen: "rs \<noteq> [] \<and> (\<forall>x\<in>set rs. 0 \<le> fst x \<and> fst x < snd x \<and> snd x < 10 ^ int_max_str_digits)
      \<longrightarrow> parse_clip_ranges (str_join '','' (map range_text rs)) = Inr rs" for rs
    by (simp add: parse_clip_ranges_eq range_items_join parse_items_map_range_text)
  note c7 = gen[of rs]
  have c6: "0 \<le> a \<and> a < b \<and> b < 10 ^ int_max_str_digits
      \<longrightarrow> parse_clip_ranges (range_text (a, b)) = Inr [(a, b)]"
    using gen[of "[(a, b)]"] by simp
  have c6b: "0 \<le> a \<and> a < 10 ^ int_max_str_digits \<and> 10 ^ int_max_str_digits \<le> b
      \<longrightarrow> parse_clip_ranges (range_text (a, b)) = Inl InvalidTimestamp"
  proof
    assume h: "0 \<le> a \<and> a < 10 ^ int_max_str_digits \<and> 10 ^ int_max_str_digits \<le> b"
    then have "(10::int) ^ int_max_str_digits \<le> \<bar>b\<bar>" by simp
    then show "parse_clip_ranges (range_text (a, b)) = Inl InvalidTimestamp"
      using h by (intro range_text_big) simp_all
  qed
  have lim: "int_max_str_digits = 4300" by (rule int_max_str_digits_def)
  have c8: "parse_clip_ranges ''10-30,45-50'' = Inr [(10, 30), (45, 50)]" by code_simp
  have c9: "parse_clip_ranges r = Inr rs
      \<longrightarrow> list_all2 (\<lambda>item p. parse_items [item] [] = Inr [p]) (range_items r) rs \<and>
          (\<forall>item\<in>set (range_items r). count_list item (CHR ''-'') = 1)"
  proof
    assume "parse_clip_ranges r = Inr rs"
    then have p: "parse_items (range_items r) [] = Inr rs"
      by (simp add: parse_clip_ranges_eq split: if_splits)
    then have 1: "list_all2 (\<lambda>item p. parse_items [item] [] = Inr [p]) (range_items r) rs"
      using parse_items_ok_all2 by fastforce
    have 2: "\<forall>item\<in>set (range_items r). count_list item (CHR ''-'') = 1"
      using parse_items_ok_items[OF p] parse_items_one_ok_count by blast
    show "list_all2 (\<lambda>item p. parse_items [item] [] = Inr [p]) (range_items r) rs \<and>
          (\<forall>item\<in>set (range_items r). count_list item (CHR ''-'') = 1)"
      using 1 2 by (rule conjI)
  qed
  have c10: "parse_clip_ranges '''' = Inl NoRangesProvided" by code_simp
  have c11: "parse_clip_ranges '' , '' = Inl NoRangesProvided" by code_simp
  show ?thesis by (intro conjI no_ranges_iff c2 c3 c4 c5 c6 c6b lim c7 c8 c9 c10 c11)
qed

theorem parse_clip_ranges_spec_witness:
  "parse_clip_ranges ''1-2, 7,9-8'' = Inl (MalformedRange ''7'') \<and>
   parse_clip_ranges ''1-2, x-7'' = Inl InvalidTimestamp \<and>
   parse_clip_ranges ''1-2,7--3'' = Inl NegativeTimestamp \<and>
   parse_clip_ranges ''1-2,7-7'' = Inl NonPositiveDuration \<and>
   (9::int) < 10 ^ int_max_str_digits \<and>
   parse_clip_ranges (range_text (3, 9)) = Inr [(3, 9)] \<and>
   (10::int) ^ int_max_str_digits \<le> 10 ^ 4300 \<and>
   parse_clip_ranges (range_text (0, 10 ^ 4300)) = Inl InvalidTimestamp \<and>
   list_all (\<lambda>x. 0 \<le> fst x \<and> fst x < snd x \<and> snd x < (10::int) ^ int_max_str_digits)
     [(10, 30), (10, 30), (5, 40)] \<and>
   parse_clip_ranges (str_join '','' (map range_text [(10, 30), (10, 30), (5, 40)]))
     = Inr [(10, 30), (10, 30), (5, 40)] \<and>
   list_all (\<lambda>item. count_list item (CHR ''-'') = 1) (range_items '' 10-30 ,, 45-50'') \<and>
   list_all (\<lambda>seg. strip seg = []) (str_split (CHR '','') '' ,, '') \<and>
   parse_clip_ranges '' ,, '' = Inl NoRangesProvided"
proof -
  have p: "parse_items [''1-2''] [] = Inr [(1, 2)]" by code_simp
  have i1: "range_items ''1-2, 7,9-8'' = [''1-2''] @ ''7'' # [''9-8'']" by code_simp
  have i2: "range_items ''1-2, x-7'' = [''1-2''] @ ''x-7'' # []" by code_simp
  have i3: "range_items ''1-2,7--3'' = [''1-2''] @ ''7--3'' # []" by code_simp
  have i4: "range_items ''1-2,7-7'' = [''1-2''] @ ''7-7'' # []" by code_simp
  have m1: "CHR ''-'' \<notin> set ''7''" by simp
  have m2: "CHR ''-'' \<in> set ''x-7''" "CHR ''-'' \<in> set ''7--3''" "CHR ''-'' \<in> set ''7-7''" by simp_all
  have t2: "parse_time (fst (split_first (CHR ''-'') ''x-7'')) = Inl InvalidTimestamp" by code_simp
  have t3: "parse_time (fst (split_first (CHR ''-'') ''7--3'')) = Inr 7"
    "parse_time (snd (split_first (CHR ''-'') ''7--3'')) = Inl NegativeTimestamp" by code_simp+
  have t4: "parse_time (fst (split_first (CHR ''-'') ''7-7'')) = Inr 7"
    "parse_time (snd (split_first (CHR ''-'') ''7-7'')) = Inr 7" by code_simp+
  have r1: "parse_clip_ranges ''1-2, 7,9-8'' = Inl (MalformedRange ''7'')"
    using parse_clip_ranges_spec[of "''1-2, 7,9-8''" "[''1-2'']" "''7''" "[''9-8'']" "[(1, 2)]"] i1 p m1
    by blast
  have r2: "parse_clip_ranges ''1-2, x-7'' = Inl InvalidTimestamp"
    using parse_clip_ranges_spec[of "''1-2, x-7''" "[''1-2'']" "''x-7''" "[]" "[(1, 2)]" InvalidTimestamp]
      i2 p m2 t2 by blast
  have r3: "parse_clip_ranges ''1-2,7--3'' = Inl NegativeTimestamp"
    using parse_clip_ranges_spec[of "''1-2,7--3''" "[''1-2'']" "''7--3''" "[]" "[(1, 2)]" NegativeTimestamp 7]
      i3 p m2 t3 by blast
  have le7: "(7::int) \<le> 7" by simp
  have r4: "parse_clip_ranges ''1-2,7-7'' = Inl NonPositiveDuration"
    using parse_clip_ranges_spec[of "''1-2,7-7''" "[''1-2'']" "''7-7''" "[]" "[(1, 2)]" e 7 7]
      i4 p m2 t4 le7 by blast
  have a3: "(0::int) \<le> 3" and lt: "(3::int) < 9" by simp_all
  have b9: "(9::int) < 10 ^ int_max_str_digits" using small_bound[of 9] by simp
  have r5: "parse_clip_ranges (range_text (3, 9)) = Inr [(3, 9)]"
    by (rule parse_clip_ranges_spec[of r pre item post ps e 3 9, THEN conjunct2, THEN conjunct2, THEN conjunct2, THEN conjunct2, THEN conjunct2, THEN conjunct1,
          THEN mp, OF conjI[OF a3 conjI[OF lt b9]]])
  have l: "int_max_str_digits \<le> 4300" by (simp add: int_max_str_digits_def)
  have a0: "(0::int) \<le> 0" by simp
  have big: "(10::int) ^ int_max_str_digits \<le> 10 ^ 4300" using l by (rule pow10_ge)
  have r5b: "parse_clip_ranges (range_text (0, 10 ^ 4300)) = Inl InvalidTimestamp"
    by (rule parse_clip_ranges_spec[of r pre item post ps e 0 "10 ^ 4300", THEN conjunct2, THEN conjunct2, THEN conjunct2, THEN conjunct2, THEN conjunct2, THEN conjunct2, THEN conjunct1,
          THEN mp, OF conjI[OF a0 conjI[OF zero_small big]]])
  have b30: "(30::int) < 10 ^ int_max_str_digits" using small_bound[of 30] by simp
  have b40: "(40::int) < 10 ^ int_max_str_digits" using small_bound[of 40] by simp
  have ne: "[(10, 30), (10, 30), (5, 40)] \<noteq> ([] :: (int \<times> int) list)" by simp
  have all: "\<forall>x\<in>set [(10, 30), (10, 30), (5, 40)].
      0 \<le> fst x \<and> fst x < snd x \<and> snd x < (10::int) ^ int_max_str_digits"
    using b30 b40 by simp
  have r6: "parse_clip_ranges (str_join '','' (map range_text [(10, 30), (10, 30), (5, 40)]))
     = Inr [(10, 30), (10, 30), (5, 40)]"
    by (rule parse_clip_ranges_spec[of r pre item post ps e a b "[(10, 30), (10, 30), (5, 40)]",
          THEN conjunct2, THEN conjunct2, THEN conjunct2, THEN conjunct2, THEN conjunct2, THEN conjunct2, THEN conjunct2, THEN conjunct2, THEN conjunct1, THEN mp, OF conjI[OF ne all]])
  have all': "list_all (\<lambda>x. 0 \<le> fst x \<and> fst x < snd x \<and> snd x < (10::int) ^ int_max_str_digits)
     [(10, 30), (10, 30), (5, 40)]"
    using all by (simp only: list_all_iff)
  have ok: "parse_clip_ranges '' 10-30 ,, 45-50'' = Inr [(10, 30), (45, 50)]" by code_simp
  have r7: "\<forall>item\<in>set (range_items '' 10-30 ,, 45-50''). count_list item (CHR ''-'') = 1"
    by (rule parse_clip_ranges_spec[of "'' 10-30 ,, 45-50''" pre item post ps e a b "[(10, 30), (45, 50)]",
          THEN conjunct2, THEN conjunct2, THEN conjunct2, THEN conjunct2, THEN conjunct2, THEN conjunct2, THEN conjunct2, THEN conjunct2, THEN conjunct2, THEN conjunct2, THEN conjunct1, THEN mp, OF ok, THEN conjunct2])
  have h8: "\<forall>seg\<in>set (str_split (CHR '','') '' ,, ''). strip seg = []" by code_simp
  have r8: "parse_clip_ranges '' ,, '' = Inl NoRangesProvided"
    by (rule parse_clip_ranges_spec[of "'' ,, ''", THEN conjunct1, THEN iffD2, OF h8])
  have r7': "list_all (\<lambda>item. count_list item (CHR ''-'') = 1) (range_items '' 10-30 ,, 45-50'')"
    using r7 by (simp only: list_all_iff)
  have h8': "list_all (\<lambda>seg. strip seg = []) (str_split (CHR '','') '' ,, '')"
    using h8 by (simp only: list_all_iff)
  show ?thesis by (intro conjI r1 r2 r3 r4 b9 r5 big r5b all' r6 r7' h8' r8)
qed

text \<open>
  C10, as stated, fails: the segment \<^verbatim>\<open>"5--0"\<close> has more than one \<^verbatim>\<open>-\<close> and fails with
  \<open>NonPositiveDuration\<close>, not with \<open>InvalidTimestamp\<close>.
\<close>

theorem first_separator_counterexample:
  "1 < count_list ''5--0'' (CHR ''-'') \<and>
   parse_clip_ranges ''5--0'' = Inl NonPositiveDuration \<and>
   parse_clip_ranges ''5--0'' \<noteq> Inl InvalidTimestamp"
proof -
  have 1: "1 < count_list ''5--0'' (CHR ''-'')" by simp
  have 2: "parse_clip_ranges ''5--0'' = Inl NonPositiveDuration" by code_simp
  have 3: "parse_clip_ranges ''5--0'' \<noteq> Inl InvalidTimestamp"
    using 2 exn_distinct(2) by simp
  show ?thesis using 1 2 3 by blast
qed

text \<open>
  C10, amended: each item is split at its first \<^verbatim>\<open>-\<close> only. An item that begins with
  \<^verbatim>\<open>-\<close> fails with \<open>InvalidTimestamp\<close> (from its empty start text), never with
  \<open>NegativeTimestamp\<close> or \<open>MalformedRange\<close>. An item with more than one \<^verbatim>\<open>-\<close> always
  fails and never with \<open>MalformedRange\<close>: with \<open>InvalidTimestamp\<close> when its start text or its
  end text is not an integer (\<^verbatim>\<open>"10-30-40"\<close>), with \<open>NegativeTimestamp\<close> when the end text
  denotes a negative integer (\<^verbatim>\<open>"5--3"\<close>), with \<open>NonPositiveDuration\<close> otherwise.
  \<open>NegativeTimestamp\<close> arises from the end text of an item only.
\<close>

theorem first_separator_spec:
  "(range_items r = pre @ (CHR ''-'' # rest) # post \<and> parse_items pre [] = Inr ps
      \<longrightarrow> parse_clip_ranges r = Inl InvalidTimestamp) \<and>
   (range_items r = pre @ item # post \<and> parse_items pre [] = Inr ps \<and>
    1 < count_list item (CHR ''-'')
      \<longrightarrow> parse_clip_ranges r =
            (case parse_time (fst (split_first (CHR ''-'') item)) of
               Inl e \<Rightarrow> Inl InvalidTimestamp
             | Inr a \<Rightarrow> (case parse_time (snd (split_first (CHR ''-'') item)) of
                           Inl e \<Rightarrow> Inl e | Inr b \<Rightarrow> Inl NonPositiveDuration)) \<and>
          parse_clip_ranges r \<in> {Inl InvalidTimestamp, Inl NegativeTimestamp, Inl NonPositiveDuration}) \<and>
   (parse_clip_ranges r = Inl NegativeTimestamp
      \<longrightarrow> (\<exists>item\<in>set (range_items r). CHR ''-'' \<in> set item \<and>
             parse_time (snd (split_first (CHR ''-'') item)) = Inl NegativeTimestamp)) \<and>
   parse_time (fst (split_first (CHR ''-'') item)) \<noteq> Inl NegativeTimestamp \<and>
   parse_clip_ranges ''-5-10'' = Inl InvalidTimestamp \<and>
   parse_clip_ranges ''10-30-40'' = Inl InvalidTimestamp \<and>
   parse_clip_ranges ''5--3'' = Inl NegativeTimestamp \<and>
   InvalidTimestamp \<noteq> NegativeTimestamp \<and>
   InvalidTimestamp \<noteq> NonPositiveDuration \<and>
   NegativeTimestamp \<noteq> NonPositiveDuration \<and>
   InvalidTimestamp \<noteq> MalformedRange x \<and>
   NegativeTimestamp \<noteq> MalformedRange x \<and>
   NonPositiveDuration \<noteq> MalformedRange x"
proof -
  have d1: "range_items r = pre @ (CHR ''-'' # rest) # post \<and> parse_items pre [] = Inr ps
      \<longrightarrow> parse_clip_ranges r = Inl InvalidTimestamp"
    by (auto simp: parse_clip_ranges_at parse_items_one split_first_hd parse_time_empty)
  have d2: "range_items r = pre @ item # post \<and> parse_items pre [] = Inr ps \<and>
    1 < count_list item (CHR ''-'')
      \<longrightarrow> parse_clip_ranges r =
            (case parse_time (fst (split_first (CHR ''-'') item)) of
               Inl e \<Rightarrow> Inl InvalidTimestamp
             | Inr a \<Rightarrow> (case parse_time (snd (split_first (CHR ''-'') item)) of
                           Inl e \<Rightarrow> Inl e | Inr b \<Rightarrow> Inl NonPositiveDuration)) \<and>
          parse_clip_ranges r \<in> {Inl InvalidTimestamp, Inl NegativeTimestamp, Inl NonPositiveDuration}"
  proof
    assume h: "range_items r = pre @ item # post \<and> parse_items pre [] = Inr ps \<and>
      1 < count_list item (CHR ''-'')"
    then have m: "parse_items [item] [] =
        (case parse_time (fst (split_first (CHR ''-'') item)) of
               Inl e \<Rightarrow> Inl InvalidTimestamp
             | Inr a \<Rightarrow> (case parse_time (snd (split_first (CHR ''-'') item)) of
                           Inl e \<Rightarrow> Inl e | Inr b \<Rightarrow> Inl NonPositiveDuration))"
      by (intro many_seps_fail) simp
    have "parse_clip_ranges r = parse_items [item] []"
      using h by (simp add: parse_clip_ranges_at[of r pre item post ps] m split: sum.splits)
    then show "parse_clip_ranges r =
            (case parse_time (fst (split_first (CHR ''-'') item)) of
               Inl e \<Rightarrow> Inl InvalidTimestamp
             | Inr a \<Rightarrow> (case parse_time (snd (split_first (CHR ''-'') item)) of
                           Inl e \<Rightarrow> Inl e | Inr b \<Rightarrow> Inl NonPositiveDuration)) \<and>
          parse_clip_ranges r \<in> {Inl InvalidTimestamp, Inl NegativeTimestamp, Inl NonPositiveDuration}"
      using m by (auto split: sum.splits dest: parse_time_errors)
  qed
  have d3: "parse_clip_ranges r = Inl NegativeTimestamp
      \<longrightarrow> (\<exists>item\<in>set (range_items r). CHR ''-'' \<in> set item \<and>
             parse_time (snd (split_first (CHR ''-'') item)) = Inl NegativeTimestamp)"
  proof
    assume "parse_clip_ranges r = Inl NegativeTimestamp"
    then have "parse_items (range_items r) [] = Inl NegativeTimestamp"
      using exn_distinct(8) by (auto simp: parse_clip_ranges_eq split: if_splits)
    then obtain item where i: "item \<in> set (range_items r)" "parse_items [item] [] = Inl NegativeTimestamp"
      using parse_items_fail_item by blast
    have "CHR ''-'' \<in> set item \<and> parse_time (snd (split_first (CHR ''-'') item)) = Inl NegativeTimestamp"
      using i(2) start_not_negative[of item] exn_distinct(3)[symmetric] exn_distinct(5)[symmetric]
      by (simp only: parse_items_one split: if_splits sum.splits) auto
    then show "\<exists>item\<in>set (range_items r). CHR ''-'' \<in> set item \<and>
             parse_time (snd (split_first (CHR ''-'') item)) = Inl NegativeTimestamp"
      using i(1) by blast
  qed
  have d5: "parse_clip_ranges ''-5-10'' = Inl InvalidTimestamp" by code_simp
  have d6: "parse_clip_ranges ''10-30-40'' = Inl InvalidTimestamp" by code_simp
  have d7: "parse_clip_ranges ''5--3'' = Inl NegativeTimestamp" by code_simp
  show ?thesis by (intro conjI d1 d2 d3 start_not_negative d5 d6 d7 exn_distinct)
qed

theorem first_separator_spec_witness:
  "parse_clip_ranges ''1-2, -7-9'' = Inl InvalidTimestamp \<and>
   1 < count_list ''3-4-5'' (CHR ''-'') \<and>
   parse_clip_ranges ''1-2,3-4-5'' = Inl InvalidTimestamp \<and>
   1 < count_list ''3--4'' (CHR ''-'') \<and>
   parse_clip_ranges ''1-2,3--4'' = Inl NegativeTimestamp \<and>
   (\<exists>item\<in>set (range_items ''1-2,3--4''). CHR ''-'' \<in> set item \<and>
       parse_time (snd (split_first (CHR ''-'') item)) = Inl NegativeTimestamp)"
proof -
  have p: "parse_items [''1-2''] [] = Inr [(1, 2)]" by code_simp
  have i1: "range_items ''1-2, -7-9'' = [''1-2''] @ (CHR ''-'' # ''7-9'') # []" by code_simp
  have i2: "range_items ''1-2,3-4-5'' = [''1-2''] @ ''3-4-5'' # []" by code_simp
  have i3: "range_items ''1-2,3--4'' = [''1-2''] @ ''3--4'' # []" by code_simp
  have k2: "1 < count_list ''3-4-5'' (CHR ''-'')" by simp
  have k3: "1 < count_list ''3--4'' (CHR ''-'')" by simp
  have t2: "parse_time (fst (split_first (CHR ''-'') ''3-4-5'')) = Inr 3"
    "parse_time (snd (split_first (CHR ''-'') ''3-4-5'')) = Inl InvalidTimestamp" by code_simp+
  have t3: "parse_time (fst (split_first (CHR ''-'') ''3--4'')) = Inr 3"
    "parse_time (snd (split_first (CHR ''-'') ''3--4'')) = Inl NegativeTimestamp" by code_simp+
  have r1: "parse_clip_ranges ''1-2, -7-9'' = Inl InvalidTimestamp"
    using first_separator_spec[of "''1-2, -7-9''" "[''1-2'']" "''7-9''" "[]" "[(1, 2)]"] i1 p by blast
  have r2: "parse_clip_ranges ''1-2,3-4-5'' = Inl InvalidTimestamp"
    using first_separator_spec[of "''1-2,3-4-5''" "[''1-2'']" rest "[]" "[(1, 2)]" "''3-4-5''"] i2 p k2 t2
    by simp
  have r3: "parse_clip_ranges ''1-2,3--4'' = Inl NegativeTimestamp"
    using first_separator_spec[of "''1-2,3--4''" "[''1-2'']" rest "[]" "[(1, 2)]" "''3--4''"] i3 p k3 t3
    by simp
  have r4: "\<exists>item\<in>set (range_items ''1-2,3--4''). CHR ''-'' \<in> set item \<and>
       parse_time (snd (split_first (CHR ''-'') item)) = Inl NegativeTimestamp"
    using first_separator_spec[of "''1-2,3--4''"] r3 by blast
  show ?thesis by (intro conjI r1 k2 r2 k3 r3 r4)
qed

section \<open>Claims about availability and format selection\<close>

text \<open>
  C3: for every metadata document, the any-codec heights are exactly the heights of the
  entries with a non-zero height and a video codec that is neither absent nor
  \<^verbatim>\<open>"none"\<close>; the fast-path heights are exactly the heights of those among them whose
  \<^verbatim>\<open>ext\<close> is \<^verbatim>\<open>mp4\<close> and whose codec begins with \<^verbatim>\<open>avc1\<close>; both are returned strictly
  ascending, hence without duplicates; \<open>available_heights\<close> returns this classification
  of the document the metadata query gave, or the query's error. For heights 480, 720 and
  1080 where only 720 is H.264 in mp4, the result is \<open>([720], [480, 720, 1080])\<close>.
\<close>

theorem available_heights_spec:
  "(formats data = Some fs \<longrightarrow>
      set (snd (classify_heights data)) =
        {h. \<exists>f\<in>set fs. height f = Some h \<and> h \<noteq> 0 \<and> vcodec f \<noteq> None \<and> vcodec f \<noteq> Some ''none''} \<and>
      set (fst (classify_heights data)) =
        {h. \<exists>f\<in>set fs. height f = Some h \<and> h \<noteq> 0 \<and> vcodec f \<noteq> None \<and> vcodec f \<noteq> Some ''none'' \<and>
              ext f = Some ''mp4'' \<and> prefix ''avc1'' (the (vcodec f))}) \<and>
   (formats data = None \<longrightarrow> classify_heights data = ([], [])) \<and>
   sorted_wrt (<) (fst (classify_heights data)) \<and>
   sorted_wrt (<) (snd (classify_heights data)) \<and>
   (inspect_formats env url w = (Inr data, w') \<longrightarrow>
      available_heights env url w = (Inr (classify_heights data), w')) \<and>
   (inspect_formats env url w = (Inl e, w') \<longrightarrow> available_heights env url w = (Inl e, w')) \<and>
   classify_heights
     \<lparr>formats = Some [\<lparr>height = Some 480, vcodec = Some ''vp9'', ext = Some ''webm''\<rparr>,
                      \<lparr>height = Some 720, vcodec = Some ''avc1.64001F'', ext = Some ''mp4''\<rparr>,
                      \<lparr>height = Some 1080, vcodec = Some ''av01.0.08M.08'', ext = Some ''mp4''\<rparr>]\<rparr>
     = ([720], [480, 720, 1080])"
proof -
  have c1: "formats data = Some fs \<longrightarrow>
      set (snd (classify_heights data)) =
        {h. \<exists>f\<in>set fs. height f = Some h \<and> h \<noteq> 0 \<and> vcodec f \<noteq> None \<and> vcodec f \<noteq> Some ''none''} \<and>
      set (fst (classify_heights data)) =
        {h. \<exists>f\<in>set fs. height f = Some h \<and> h \<noteq> 0 \<and> vcodec f \<noteq> None \<and> vcodec f \<noteq> Some ''none'' \<and>
              ext f = Some ''mp4'' \<and> prefix ''avc1'' (the (vcodec f))}"
  proof
    assume f: "formats data = Some fs"
    then have fo: "formats_of data = fs" by (simp add: formats_of_def)
    have a: "set (snd (classify_heights data)) = {h. \<exists>f\<in>set fs. any_codec f h}"
      by (simp add: classify_heights_eq fo finite_heights)
    have b: "set (fst (classify_heights data)) = {h. \<exists>f\<in>set fs. fast_path f h}"
      by (simp add: classify_heights_eq fo finite_heights)
    have a': "{h. \<exists>f\<in>set fs. any_codec f h} =
        {h. \<exists>f\<in>set fs. height f = Some h \<and> h \<noteq> 0 \<and> vcodec f \<noteq> None \<and> vcodec f \<noteq> Some ''none''}"
      by (simp add: any_codec_def)
    have b': "{h. \<exists>f\<in>set fs. fast_path f h} =
        {h. \<exists>f\<in>set fs. height f = Some h \<and> h \<noteq> 0 \<and> vcodec f \<noteq> None \<and> vcodec f \<noteq> Some ''none'' \<and>
              ext f = Some ''mp4'' \<and> prefix ''avc1'' (the (vcodec f))}"
      by (auto simp: fast_path_def any_codec_def)
    show "set (snd (classify_heights data)) =
        {h. \<exists>f\<in>set fs. height f = Some h \<and> h \<noteq> 0 \<and> vcodec f \<noteq> None \<and> vcodec f \<noteq> Some ''none''} \<and>
      set (fst (classify_heights data)) =
        {h. \<exists>f\<in>set fs. height f = Some h \<and> h \<noteq> 0 \<and> vcodec f \<noteq> None \<and> vcodec f \<noteq> Some ''none'' \<and>
              ext f = Some ''mp4'' \<and> prefix ''avc1'' (the (vcodec f))}"
      using a b a' b' by simp
  qed
  have c2: "formats data = None \<longrightarrow> classify_heights data = ([], [])"
    by (simp add: classify_heights_def)
  have c3: "sorted_wrt (<) (fst (classify_heights data))"
    by (simp add: classify_heights_eq strict_sorted_list_of_set)
  have c4: "sorted_wrt (<) (snd (classify_heights data))"
    by (simp add: classify_heights_eq strict_sorted_list_of_set)
  have c5: "inspect_formats env url w = (Inr data, w') \<longrightarrow>
      available_heights env url w = (Inr (classify_heights data), w')"
    by (simp add: available_heights_def)
  have c6: "inspect_formats env url w = (Inl e, w') \<longrightarrow> available_heights env url w = (Inl e, w')"
    by (simp add: available_heights_def)
  have c7: "classify_heights
     \<lparr>formats = Some [\<lparr>height = Some 480, vcodec = Some ''vp9'', ext = Some ''webm''\<rparr>,
                      \<lparr>height = Some 720, vcodec = Some ''avc1.64001F'', ext = Some ''mp4''\<rparr>,
                      \<lparr>height = Some 1080, vcodec = Some ''av01.0.08M.08'', ext = Some ''mp4''\<rparr>]\<rparr>
     = ([720], [480, 720, 1080])"
    by code_simp
  show ?thesis by (intro conjI c1 c2 c3 c4 c5 c6 c7)
qed

theorem available_heights_spec_witness:
  "formats double_document
     = Some [\<lparr>height = Some 480, vcodec = Some ''vp9'', ext = Some ''webm''\<rparr>,
             \<lparr>height = Some 720, vcodec = Some ''avc1.64001F'', ext = Some ''mp4''\<rparr>,
             \<lparr>height = Some 1080, vcodec = Some ''vp9'', ext = Some ''webm''\<rparr>] \<and>
   set (snd (classify_heights double_document)) = {480, 720, 1080} \<and>
   set (fst (classify_heights double_document)) = {720} \<and>
   classify_heights \<lparr>formats = None\<rparr> = ([], []) \<and>
   inspect_formats double_env ''u'' double_w2 = (Inr double_document, double_w3) \<and>
   available_heights double_env ''u'' double_w2 = (Inr (classify_heights double_document), double_w3) \<and>
   inspect_formats (double_env\<lparr>json_loads := (\<lambda>out. None)\<rparr>) ''u'' double_w2
     = (Inl MetadataParseFailed, double_w3) \<and>
   available_heights (double_env\<lparr>json_loads := (\<lambda>out. None)\<rparr>) ''u'' double_w2
     = (Inl MetadataParseFailed, double_w3)"
proof -
  let ?fs = "[\<lparr>height = Some 480, vcodec = Some ''vp9'', ext = Some ''webm''\<rparr>,
             \<lparr>height = Some 720, vcodec = Some ''avc1.64001F'', ext = Some ''mp4''\<rparr>,
             \<lparr>height = Some 1080, vcodec = Some ''vp9'', ext = Some ''webm''\<rparr>]"
  have f: "formats double_document = Some ?fs" by (simp add: double_document_def)
  note th = available_heights_spec[of double_document ?fs double_env "''u''" double_w2 double_w3]
  have s: "set (snd (classify_heights double_document)) =
        {h. \<exists>f\<in>set ?fs. height f = Some h \<and> h \<noteq> 0 \<and> vcodec f \<noteq> None \<and> vcodec f \<noteq> Some ''none''}"
    and t: "set (fst (classify_heights double_document)) =
        {h. \<exists>f\<in>set ?fs. height f = Some h \<and> h \<noteq> 0 \<and> vcodec f \<noteq> None \<and> vcodec f \<noteq> Some ''none'' \<and>
              ext f = Some ''mp4'' \<and> prefix ''avc1'' (the (vcodec f))}"
    using th f by blast+
  have a: "set (snd (classify_heights double_document)) = {480, 720, 1080}"
    unfolding s by auto
  have b: "set (fst (classify_heights double_document)) = {720}"
    unfolding t by auto
  have n: "formats \<lparr>formats = None\<rparr> = None" by simp
  have c: "classify_heights \<lparr>formats = None\<rparr> = ([], [])"
    using available_heights_spec[of "\<lparr>formats = None\<rparr>"] n by blast
  have i1: "inspect_formats double_env ''u'' double_w2 = (Inr double_document, double_w3)"
    by code_simp
  have d: "available_heights double_env ''u'' double_w2 = (Inr (classify_heights double_document), double_w3)"
    using th i1 by blast
  have i2: "inspect_formats (double_env\<lparr>json_loads := (\<lambda>out. None)\<rparr>) ''u'' double_w2
     = (Inl MetadataParseFailed, double_w3)"
    by code_simp
  have e: "available_heights (double_env\<lparr>json_loads := (\<lambda>out. None)\<rparr>) ''u'' double_w2
     = (Inl MetadataParseFailed, double_w3)"
    using available_heights_spec[where env = "double_env\<lparr>json_loads := (\<lambda>out. None)\<rparr>"
        and url = "''u''" and w = double_w2 and w' = double_w3 and e = MetadataParseFailed] i2
    by blast
  show ?thesis by (intro conjI f a b c i1 d i2 e)
qed

text \<open>
  C5: for every height, \<open>format_selector h True\<close> is the selector
  \<^verbatim>\<open>bv*[height=h]+ba/b[height=h]\<close>, which names no codec and no container, with no merge
  container; \<open>format_selector h False\<close> is the selector of \<^verbatim>\<open>avc1\<close> video in \<^verbatim>\<open>mp4\<close> at
  that height plus \<^verbatim>\<open>mp4a\<close> audio, else the best \<^verbatim>\<open>mp4\<close> stream at that height, with
  merge container \<^verbatim>\<open>mp4\<close>.
\<close>

theorem format_selector_spec:
  "format_selector h True =
     (''bv*[height='' @ str_int h @ '']+ba/b[height='' @ str_int h @ '']'', None) \<and>
   \<not> sublist ''codec'' (fst (format_selector h True)) \<and>
   \<not> sublist ''ext'' (fst (format_selector h True)) \<and>
   format_selector h False =
     (''bv*[vcodec^=avc1][ext=mp4][height='' @ str_int h @ '']+ba[acodec^=mp4a]/b[ext=mp4][height=''
        @ str_int h @ '']'', Some ''mp4'') \<and>
   format_selector 720 True = (''bv*[height=720]+ba/b[height=720]'', None) \<and>
   format_selector 720 False =
     (''bv*[vcodec^=avc1][ext=mp4][height=720]+ba[acodec^=mp4a]/b[ext=mp4][height=720]'', Some ''mp4'')"
proof -
  have c1: "format_selector h True =
     (''bv*[height='' @ str_int h @ '']+ba/b[height='' @ str_int h @ '']'', None)"
    by (simp add: format_selector_def)
  have nc: "CHR ''c'' \<notin> set (fst (format_selector h True))"
    and nx: "CHR ''x'' \<notin> set (fst (format_selector h True))"
    using str_int_no_letters[of h] by (simp_all add: c1)
  have c2: "\<not> sublist ''codec'' (fst (format_selector h True))"
    using nc set_mono_sublist[of "''codec''" "fst (format_selector h True)"] by auto
  have c3: "\<not> sublist ''ext'' (fst (format_selector h True))"
    using nx set_mono_sublist[of "''ext''" "fst (format_selector h True)"] by auto
  have c4: "format_selector h False =
     (''bv*[vcodec^=avc1][ext=mp4][height='' @ str_int h @ '']+ba[acodec^=mp4a]/b[ext=mp4][height=''
        @ str_int h @ '']'', Some ''mp4'')"
    by (simp add: format_selector_def)
  have c5: "format_selector 720 True = (''bv*[height=720]+ba/b[height=720]'', None)"
    by code_simp
  have c6: "format_selector 720 False =
     (''bv*[vcodec^=avc1][ext=mp4][height=720]+ba[acodec^=mp4a]/b[ext=mp4][height=720]'', Some ''mp4'')"
    by code_simp
  show ?thesis by (intro conjI c1 c2 c3 c4 c5 c6)
qed

text \<open>
  C7: for every source, range and mode, \<open>run_ffmpeg\<close> fails with \<open>OutputAlreadyExists\<close>
  whenever something exists at the output path, and leaves the world as it was: no process
  is run and no file changes. Only when nothing exists there is the encoder run, once.
  Hence a second call with the same output path, after a call that left a file there,
  fails with \<open>OutputAlreadyExists\<close> (an error different from \<open>ExtractionFailed\<close>) and leaves
  the file system, the artifact included, as the first call left it.
\<close>

theorem run_ffmpeg_spec:
  "(path_exists (files w) output_path \<longrightarrow>
      run_ffmpeg env source start end output_path reencode w
        = (Inl (OutputAlreadyExists output_path), w)) \<and>
   (\<not> path_exists (files w) output_path \<longrightarrow>
      run_ffmpeg env source start end output_path reencode w
        = run_command env (ffmpeg_cmd source start end output_path reencode) ExtractionFailed w \<and>
      trace (snd (run_ffmpeg env source start end output_path reencode w))
        = trace w @ [Exec (ffmpeg_cmd source start end output_path reencode)]) \<and>
   (run_ffmpeg env source start end output_path reencode w = (r1, w1) \<and>
    path_exists (files w1) output_path \<longrightarrow>
      run_ffmpeg env source2 start2 end2 output_path reencode2 w1
        = (Inl (OutputAlreadyExists output_path), w1)) \<and>
   OutputAlreadyExists output_path \<noteq> ExtractionFailed"
proof -
  have c1: "path_exists (files w) output_path \<longrightarrow>
      run_ffmpeg env source start end output_path reencode w
        = (Inl (OutputAlreadyExists output_path), w)"
    by (simp add: run_ffmpeg_exists)
  have c2: "\<not> path_exists (files w) output_path \<longrightarrow>
      run_ffmpeg env source start end output_path reencode w
        = run_command env (ffmpeg_cmd source start end output_path reencode) ExtractionFailed w \<and>
      trace (snd (run_ffmpeg env source start end output_path reencode w))
        = trace w @ [Exec (ffmpeg_cmd source start end output_path reencode)]"
    by (metis run_ffmpeg_absent run_command_trace prod.collapse)
  have c3: "run_ffmpeg env source start end output_path reencode w = (r1, w1) \<and>
    path_exists (files w1) output_path \<longrightarrow>
      run_ffmpeg env source2 start2 end2 output_path reencode2 w1
        = (Inl (OutputAlreadyExists output_path), w1)"
    by (simp add: run_ffmpeg_exists)
  show ?thesis by (intro conjI c1 c2 c3 pipeline_exn_distinct)
qed

theorem run_ffmpeg_spec_witness:
  "\<not> path_exists (files double_world) [''out'', ''a.mp4''] \<and>
   run_ffmpeg double_env [''tmp'', ''source.mp4''] 10 30 [''out'', ''a.mp4''] False double_world
     = (Inr (), \<lparr>files = [([''out'', ''a.mp4''], File ''clip'')], outside = (),
          trace = [Exec (ffmpeg_cmd [''tmp'', ''source.mp4''] 10 30 [''out'', ''a.mp4''] False)]\<rparr>) \<and>
   path_exists [([''out'', ''a.mp4''], File ''clip'')] [''out'', ''a.mp4''] \<and>
   run_ffmpeg double_env [''tmp'', ''source.mp4''] 45 50 [''out'', ''a.mp4''] True
      \<lparr>files = [([''out'', ''a.mp4''], File ''clip'')], outside = (),
          trace = [Exec (ffmpeg_cmd [''tmp'', ''source.mp4''] 10 30 [''out'', ''a.mp4''] False)]\<rparr>
     = (Inl (OutputAlreadyExists [''out'', ''a.mp4'']),
        \<lparr>files = [([''out'', ''a.mp4''], File ''clip'')], outside = (),
          trace = [Exec (ffmpeg_cmd [''tmp'', ''source.mp4''] 10 30 [''out'', ''a.mp4''] False)]\<rparr>)"
proof -
  let ?w1 = "\<lparr>files = [([''out'', ''a.mp4''], File ''clip'')], outside = (),
          trace = [Exec (ffmpeg_cmd [''tmp'', ''source.mp4''] 10 30 [''out'', ''a.mp4''] False)]\<rparr>"
  have h1: "\<not> path_exists (files double_world) [''out'', ''a.mp4'']"
    by (simp add: double_world_def path_exists_def)
  have h2: "run_ffmpeg double_env [''tmp'', ''source.mp4''] 10 30 [''out'', ''a.mp4''] False double_world
     = (Inr (), ?w1)"
    by code_simp
  have h3: "path_exists (files ?w1) [''out'', ''a.mp4'']"
    by (simp add: path_exists_def)
  have r: "run_ffmpeg double_env [''tmp'', ''source.mp4''] 45 50 [''out'', ''a.mp4''] True ?w1
     = (Inl (OutputAlreadyExists [''out'', ''a.mp4'']), ?w1)"
    using run_ffmpeg_spec[of double_world "[''out'', ''a.mp4'']" double_env "[''tmp'', ''source.mp4'']" 10 30 False
        "Inr ()" ?w1 "[''tmp'', ''source.mp4'']" 45 50 True] h2 h3
    by blast
  have h3': "path_exists [([''out'', ''a.mp4''], File ''clip'')] [''out'', ''a.mp4'']"
    using h3 by simp
  show ?thesis by (intro conjI h1 h2 h3' r)
qed

text \<open>
  C2: in every run of \<open>clip_url\<close> that reaches the creation of the workspace (both tools on
  the path, a positive height, the output directory made), whatever the result, nothing at
  or below the workspace directory exists when \<open>clip_url\<close> returns or raises, and the last
  effect of the run is the removal of that directory, created as the second effect. The
  source file that \<open>download_source\<close> returns lies in the workspace, so it does not exist
  after the removal.
\<close>

theorem workspace_removed:
  "(ensure_dependencies env = Inr () \<and> 0 < q \<and> mkdir_p outdir w = (Inr (), w1) \<and>
    tmp = joinpath outdir (''youtubeclipper_'' @ temp_name env) \<and>
    clip_url env url ranges outdir reencode fmt q w = (res, w')
    \<longrightarrow> (\<forall>p. prefix tmp p \<longrightarrow> \<not> path_exists (files w') p) \<and>
        (\<exists>t. trace w' = trace w @ [MkdirP outdir, Mkdtemp tmp] @ t @ [Rmtree tmp])) \<and>
   (download_source env url workdir sel mf w3 = (Inr source, w4)
    \<longrightarrow> path_exists (files w4) source \<and> prefix workdir source \<and>
        \<not> path_exists (files (rmtree workdir w5)) source)"
proof -
  have c1: "ensure_dependencies env = Inr () \<and> 0 < q \<and> mkdir_p outdir w = (Inr (), w1) \<and>
    tmp = joinpath outdir (''youtubeclipper_'' @ temp_name env) \<and>
    clip_url env url ranges outdir reencode fmt q w = (res, w')
    \<longrightarrow> (\<forall>p. prefix tmp p \<longrightarrow> \<not> path_exists (files w') p) \<and>
        (\<exists>t. trace w' = trace w @ [MkdirP outdir, Mkdtemp tmp] @ t @ [Rmtree tmp])"
  proof
    assume h: "ensure_dependencies env = Inr () \<and> 0 < q \<and> mkdir_p outdir w = (Inr (), w1) \<and>
      tmp = joinpath outdir (''youtubeclipper_'' @ temp_name env) \<and>
      clip_url env url ranges outdir reencode fmt q w = (res, w')"
    define w2 where "w2 = snd (mkdtemp env outdir w1)"
    have md: "mkdtemp env outdir w1 = (tmp, w2)" using h by (simp add: w2_def mkdtemp_eq)
    obtain rb w3 where b: "clip_url_body env url ranges outdir reencode fmt q tmp w2 = (rb, w3)"
      by (cases "clip_url_body env url ranges outdir reencode fmt q tmp w2")
    have "clip_url env url ranges outdir reencode fmt q w = (rb, rmtree tmp w3)"
      using clip_url_reaches[of env q outdir w w1 tmp w2 url ranges reencode fmt] h md b by simp
    then have w': "w' = rmtree tmp w3" using h by simp
    have t1: "trace w1 = trace w @ [MkdirP outdir]" using h mkdir_p_trace by blast
    have t2: "trace w2 = trace w1 @ [Mkdtemp tmp]" using md by (auto simp: mkdtemp_eq)
    obtain t where t3: "trace w3 = trace w2 @ t" using clip_url_body_ext[OF b] by blast
    have "trace w' = trace w @ [MkdirP outdir, Mkdtemp tmp] @ t @ [Rmtree tmp]"
      using w' t1 t2 t3 by (simp add: rmtree_trace)
    then show "(\<forall>p. prefix tmp p \<longrightarrow> \<not> path_exists (files w') p) \<and>
        (\<exists>t. trace w' = trace w @ [MkdirP outdir, Mkdtemp tmp] @ t @ [Rmtree tmp])"
      using w' rmtree_gone by blast
  qed
  have c2: "download_source env url workdir sel mf w3 = (Inr source, w4)
    \<longrightarrow> path_exists (files w4) source \<and> prefix workdir source \<and>
        \<not> path_exists (files (rmtree workdir w5)) source"
    using download_source_inside rmtree_gone by blast
  show ?thesis by (intro conjI c1 c2)
qed

theorem workspace_removed_witness:
  "ensure_dependencies double_env = Inr () \<and>
   mkdir_p [''out''] double_world = (Inr (), double_w1) \<and>
   double_tmp = joinpath [''out''] (''youtubeclipper_'' @ temp_name double_env) \<and>
   \<not> path_exists (files (snd (clip_url double_env ''u'' [(10, 30)] [''out''] False ''mp4'' 720 double_world)))
       double_tmp \<and>
   \<not> path_exists (files (snd (clip_url double_env ''u'' [(10, 30)] [''out''] False ''mp4'' 720 double_world)))
       (double_tmp @ [''source.mp4'']) \<and>
   \<not> path_exists (files (snd (clip_url double_env ''u'' [(99, 120)] [''out''] False ''mp4'' 720 double_world)))
       (double_tmp @ [''source.mp4'']) \<and>
   \<not> path_exists (files (snd (clip_url double_env ''u'' [(10, 30)] [''out''] False ''mkv'' 720 double_world)))
       (double_tmp @ [''source.mp4'']) \<and>
   path_exists (files double_w4) (double_tmp @ [''source.mp4'']) \<and>
   \<not> path_exists (files (rmtree double_tmp double_w4)) (double_tmp @ [''source.mp4''])"
proof -
  have t: "double_tmp = joinpath [''out''] (''youtubeclipper_'' @ temp_name double_env)"
    by code_simp
  have q: "(0::int) < 720" by simp
  have p1: "prefix double_tmp double_tmp" and p2: "prefix double_tmp (double_tmp @ [''source.mp4''])"
    by simp_all
  have run: "\<not> path_exists (files (snd (clip_url double_env ''u'' ranges [''out''] False fmt 720 double_world))) p"
    if "prefix double_tmp p" for ranges fmt p
    using workspace_removed[of double_env 720 "[''out'']" double_world double_w1 double_tmp "''u''" ranges
        False fmt "fst (clip_url double_env ''u'' ranges [''out''] False fmt 720 double_world)"
        "snd (clip_url double_env ''u'' ranges [''out''] False fmt 720 double_world)"]
      double_deps double_mkdir t q that
      prod.collapse[of "clip_url double_env ''u'' ranges [''out''] False fmt 720 double_world", symmetric]
    by blast
  have d: "path_exists (files double_w4) (double_tmp @ [''source.mp4'']) \<and>
      \<not> path_exists (files (rmtree double_tmp double_w4)) (double_tmp @ [''source.mp4''])"
    using workspace_removed[where env = double_env and url = "''u''" and workdir = double_tmp
        and sel = "fst (format_selector 720 False)" and mf = "snd (format_selector 720 False)"
        and ?w3.0 = double_w3 and source = "double_tmp @ [''source.mp4'']" and ?w4.0 = double_w4
        and ?w5.0 = double_w4]
      double_download
    by blast
  show ?thesis
    by (intro conjI double_deps double_mkdir t run[OF p1] run[OF p2] conjunct1[OF d] conjunct2[OF d])
qed

text \<open>
  C4: once the heights are known, \<open>clip_url\<close> compares the requested height with the
  any-codec heights when \<open>reencode\<close> holds and with the fast-path heights otherwise. When the
  height is absent the job fails with \<open>QualityUnavailable\<close>, whose message lists the
  any-codec heights, respectively with \<open>QualityUnavailableFastPath\<close>, whose message lists
  the fast-path heights and the any-codec heights; the only process run is the metadata
  query, so nothing is downloaded or extracted. When the height is present, the download
  is run next and the result is neither of these two errors.
\<close>

theorem quality_check:
  "(ensure_dependencies env = Inr () \<and> 0 < q \<and> mkdir_p outdir w = (Inr (), w1) \<and>
    mkdtemp env outdir w1 = (tmp, w2) \<and>
    available_heights env url w2 = (Inr (h264, allh), w3)
    \<longrightarrow>
      (reencode \<and> q \<notin> set allh \<longrightarrow>
         clip_url env url ranges outdir reencode fmt q w
           = (Inl (QualityUnavailable q allh), rmtree tmp w3)) \<and>
      (\<not> reencode \<and> q \<notin> set h264 \<longrightarrow>
         clip_url env url ranges outdir reencode fmt q w
           = (Inl (QualityUnavailableFastPath q h264 allh), rmtree tmp w3)) \<and>
      trace (rmtree tmp w3)
        = trace w @ [MkdirP outdir, Mkdtemp tmp, Exec (inspect_cmd url), Rmtree tmp] \<and>
      (q \<in> set (if reencode then allh else h264) \<longrightarrow>
         (\<exists>t. trace (snd (clip_url env url ranges outdir reencode fmt q w))
                = trace w @ [MkdirP outdir, Mkdtemp tmp, Exec (inspect_cmd url),
                    Exec (download_cmd url tmp (fst (format_selector q reencode))
                            (snd (format_selector q reencode)))] @ t) \<and>
         fst (clip_url env url ranges outdir reencode fmt q w) \<noteq> Inl (QualityUnavailable q allh) \<and>
         fst (clip_url env url ranges outdir reencode fmt q w)
           \<noteq> Inl (QualityUnavailableFastPath q h264 allh))) \<and>
   QualityUnavailable q allh =
     ClipperError (''Requested '' @ str_int q @ ''p is not available. Available video heights: '' @
       heights_text allh @ ''. Use --height to pick one of the available heights.'') \<and>
   QualityUnavailableFastPath q h264 allh =
     ClipperError (''Requested '' @ str_int q @
       ''p is not available for fast clipping. Available H.264 MP4 heights: '' @ heights_text h264 @
       ''. Other video heights: '' @ heights_text allh @
       ''. Use --height to choose an available H.264 MP4 height, or try --reencode for non-H.264 sources.'') \<and>
   heights_text [480, 720, 1080] = ''480, 720, 1080'' \<and> heights_text [] = ''none''"
proof -
  have c1: "ensure_dependencies env = Inr () \<and> 0 < q \<and> mkdir_p outdir w = (Inr (), w1) \<and>
    mkdtemp env outdir w1 = (tmp, w2) \<and>
    available_heights env url w2 = (Inr (h264, allh), w3)
    \<longrightarrow>
      (reencode \<and> q \<notin> set allh \<longrightarrow>
         clip_url env url ranges outdir reencode fmt q w
           = (Inl (QualityUnavailable q allh), rmtree tmp w3)) \<and>
      (\<not> reencode \<and> q \<notin> set h264 \<longrightarrow>
         clip_url env url ranges outdir reencode fmt q w
           = (Inl (QualityUnavailableFastPath q h264 allh), rmtree tmp w3)) \<and>
      trace (rmtree tmp w3)
        = trace w @ [MkdirP outdir, Mkdtemp tmp, Exec (inspect_cmd url), Rmtree tmp] \<and>
      (q \<in> set (if reencode then allh else h264) \<longrightarrow>
         (\<exists>t. trace (snd (clip_url env url ranges outdir reencode fmt q w))
                = trace w @ [MkdirP outdir, Mkdtemp tmp, Exec (inspect_cmd url),
                    Exec (download_cmd url tmp (fst (format_selector q reencode))
                            (snd (format_selector q reencode)))] @ t) \<and>
         fst (clip_url env url ranges outdir reencode fmt q w) \<noteq> Inl (QualityUnavailable q allh) \<and>
         fst (clip_url env url ranges outdir reencode fmt q w)
           \<noteq> Inl (QualityUnavailableFastPath q h264 allh))"
  proof
    assume h: "ensure_dependencies env = Inr () \<and> 0 < q \<and> mkdir_p outdir w = (Inr (), w1) \<and>
      mkdtemp env outdir w1 = (tmp, w2) \<and>
      available_heights env url w2 = (Inr (h264, allh), w3)"
    then have h1: "ensure_dependencies env = Inr ()" and h2: "0 < q"
      and h3: "mkdir_p outdir w = (Inr (), w1)" and h4: "mkdtemp env outdir w1 = (tmp, w2)"
      and h5: "available_heights env url w2 = (Inr (h264, allh), w3)" by simp_all
    note u = clip_url_after_query[OF h1 h2 h3 h4 h5, of ranges reencode fmt]
    have t3: "trace w3 = trace w @ [MkdirP outdir, Mkdtemp tmp, Exec (inspect_cmd url)]"
      using h3 h4 h5 by (rule trace_after_query)
    have a: "reencode \<and> q \<notin> set allh \<longrightarrow>
         clip_url env url ranges outdir reencode fmt q w
           = (Inl (QualityUnavailable q allh), rmtree tmp w3)"
      using u by (cases reencode) simp_all
    have b: "\<not> reencode \<and> q \<notin> set h264 \<longrightarrow>
         clip_url env url ranges outdir reencode fmt q w
           = (Inl (QualityUnavailableFastPath q h264 allh), rmtree tmp w3)"
      using u by (cases reencode) simp_all
    have c: "trace (rmtree tmp w3)
        = trace w @ [MkdirP outdir, Mkdtemp tmp, Exec (inspect_cmd url), Rmtree tmp]"
      using t3 by (simp add: rmtree_trace)
    have d: "q \<in> set (if reencode then allh else h264) \<longrightarrow>
         (\<exists>t. trace (snd (clip_url env url ranges outdir reencode fmt q w))
                = trace w @ [MkdirP outdir, Mkdtemp tmp, Exec (inspect_cmd url),
                    Exec (download_cmd url tmp (fst (format_selector q reencode))
                            (snd (format_selector q reencode)))] @ t) \<and>
         fst (clip_url env url ranges outdir reencode fmt q w) \<noteq> Inl (QualityUnavailable q allh) \<and>
         fst (clip_url env url ranges outdir reencode fmt q w)
           \<noteq> Inl (QualityUnavailableFastPath q h264 allh)"
    proof
      assume m: "q \<in> set (if reencode then allh else h264)"
      let ?sel = "fst (format_selector q reencode)" and ?mf = "snd (format_selector q reencode)"
      let ?res = "clip_url env url ranges outdir reencode fmt q w"
      obtain y w4 where ds: "download_source env url tmp ?sel ?mf w3 = (y, w4)"
        by (cases "download_source env url tmp ?sel ?mf w3")
      have t4: "trace w4 = trace w @ [MkdirP outdir, Mkdtemp tmp, Exec (inspect_cmd url),
          Exec (download_cmd url tmp ?sel ?mf)]"
        using download_source_trace[OF ds] t3 by simp
      have "(\<exists>t. trace (snd ?res) = trace w4 @ t) \<and>
          fst ?res \<noteq> Inl (QualityUnavailable q allh) \<and>
          fst ?res \<noteq> Inl (QualityUnavailableFastPath q h264 allh)"
      proof (cases y)
        case (Inl e)
        then have "?res = (Inl e, rmtree tmp w4)" using u m ds by simp
        moreover have "e = DownloadFailed \<or> e = NoSourceFileProduced"
          using ds Inl download_source_errors by blast
        ultimately show ?thesis using requested_distinct requested_distinct[symmetric] by (auto simp: rmtree_trace)
      next
        case (Inr source)
        show ?thesis
        proof (cases "\<not> reencode \<and> lstrip_dot (path_suffix source) \<noteq> fmt")
          case True
          then have "?res = (Inl (OutputFormatMismatch (lstrip_dot (path_suffix source)) fmt), rmtree tmp w4)"
            using u m ds Inr by simp
          then show ?thesis using requested_distinct requested_distinct[symmetric] by (auto simp: rmtree_trace)
        next
          case False
          obtain z w5 where l: "clip_loop env source outdir (now_stamp env) fmt reencode ranges [] w4 = (z, w5)"
            by (cases "clip_loop env source outdir (now_stamp env) fmt reencode ranges [] w4")
          have r: "?res = (z, rmtree tmp w5)" using u m ds Inr False l by simp
          obtain t where t: "trace w5 = trace w4 @ t" using clip_loop_ext[OF l] by blast
          have "z \<noteq> Inl (QualityUnavailable q allh) \<and> z \<noteq> Inl (QualityUnavailableFastPath q h264 allh)"
            using clip_loop_errors[of env source outdir "now_stamp env" fmt reencode ranges "[]" w4 _ w5] l
              requested_distinct requested_distinct[symmetric] by (cases z) auto
          then show ?thesis using r t by (auto simp: rmtree_trace)
        qed
      qed
      then show "(\<exists>t. trace (snd ?res)
                = trace w @ [MkdirP outdir, Mkdtemp tmp, Exec (inspect_cmd url),
                    Exec (download_cmd url tmp ?sel ?mf)] @ t) \<and>
         fst ?res \<noteq> Inl (QualityUnavailable q allh) \<and>
         fst ?res \<noteq> Inl (QualityUnavailableFastPath q h264 allh)"
        using t4 by auto
    qed
    show "(reencode \<and> q \<notin> set allh \<longrightarrow>
         clip_url env url ranges outdir reencode fmt q w
           = (Inl (QualityUnavailable q allh), rmtree tmp w3)) \<and>
      (\<not> reencode \<and> q \<notin> set h264 \<longrightarrow>
         clip_url env url ranges outdir reencode fmt q w
           = (Inl (QualityUnavailableFastPath q h264 allh), rmtree tmp w3)) \<and>
      trace (rmtree tmp w3)
        = trace w @ [MkdirP outdir, Mkdtemp tmp, Exec (inspect_cmd url), Rmtree tmp] \<and>
      (q \<in> set (if reencode then allh else h264) \<longrightarrow>
         (\<exists>t. trace (snd (clip_url env url ranges outdir reencode fmt q w))
                = trace w @ [MkdirP outdir, Mkdtemp tmp, Exec (inspect_cmd url),
                    Exec (download_cmd url tmp (fst (format_selector q reencode))
                            (snd (format_selector q reencode)))] @ t) \<and>
         fst (clip_url env url ranges outdir reencode fmt q w) \<noteq> Inl (QualityUnavailable q allh) \<and>
         fst (clip_url env url ranges outdir reencode fmt q w)
           \<noteq> Inl (QualityUnavailableFastPath q h264 allh))"
      by (intro conjI a b c d)
  qed
  have c2: "QualityUnavailable q allh =
     ClipperError (''Requested '' @ str_int q @ ''p is not available. Available video heights: '' @
       heights_text allh @ ''. Use --height to pick one of the available heights.'')"
    by (simp add: QualityUnavailable_def)
  have c3: "QualityUnavailableFastPath q h264 allh =
     ClipperError (''Requested '' @ str_int q @
       ''p is not available for fast clipping. Available H.264 MP4 heights: '' @ heights_text h264 @
       ''. Other video heights: '' @ heights_text allh @
       ''. Use --height to choose an available H.264 MP4 height, or try --reencode for non-H.264 sources.'')"
    by (simp add: QualityUnavailableFastPath_def)
  have c4: "heights_text [480, 720, 1080] = ''480, 720, 1080''" by code_simp
  have c5: "heights_text [] = ''none''" by code_simp
  show ?thesis by (intro conjI c1 c2 c3 c4 c5)
qed

theorem quality_check_witness:
  "ensure_dependencies double_env = Inr () \<and>
   mkdir_p [''out''] double_world = (Inr (), double_w1) \<and>
   mkdtemp double_env [''out''] double_w1 = (double_tmp, double_w2) \<and>
   available_heights double_env ''u'' double_w2 = (Inr ([720], [480, 720, 1080]), double_w3) \<and>
   clip_url double_env ''u'' [(10, 30)] [''out''] False ''mp4'' 1080 double_world
     = (Inl (QualityUnavailableFastPath 1080 [720] [480, 720, 1080]), rmtree double_tmp double_w3) \<and>
   clip_url double_env ''u'' [(10, 30)] [''out''] True ''mp4'' 360 double_world
     = (Inl (QualityUnavailable 360 [480, 720, 1080]), rmtree double_tmp double_w3) \<and>
   trace (rmtree double_tmp double_w3)
     = [MkdirP [''out''], Mkdtemp double_tmp, Exec (inspect_cmd ''u''), Rmtree double_tmp] \<and>
   fst (clip_url double_env ''u'' [(10, 30)] [''out''] True ''mp4'' 1080 double_world)
     \<noteq> Inl (QualityUnavailable 1080 [480, 720, 1080]) \<and>
   fst (clip_url double_env ''u'' [(10, 30)] [''out''] True ''mp4'' 1080 double_world)
     = Inr [[''out'', ''clip_10_30_20240101_120000_000000.mp4'']]"
proof -
  have q1: "(0::int) < 1080" and q2: "(0::int) < 360" by simp_all
  have n1: "(1080::int) \<notin> set [720]" and n2: "(360::int) \<notin> set [480, 720, 1080]" by simp_all
  have m2: "(1080::int) \<in> set (if True then [480, 720, 1080] else [720])" by simp
  have a: "clip_url double_env ''u'' [(10, 30)] [''out''] False ''mp4'' 1080 double_world
     = (Inl (QualityUnavailableFastPath 1080 [720] [480, 720, 1080]), rmtree double_tmp double_w3)"
    using quality_check[of double_env 1080 "[''out'']" double_world double_w1 double_tmp double_w2 "''u''"
        "[720]" "[480, 720, 1080]" double_w3 False "[(10, 30)]" "''mp4''"]
      double_deps double_mkdir double_mkdtemp double_heights q1 n1 m2
    by blast
  have b: "clip_url double_env ''u'' [(10, 30)] [''out''] True ''mp4'' 360 double_world
     = (Inl (QualityUnavailable 360 [480, 720, 1080]), rmtree double_tmp double_w3)"
    using quality_check[of double_env 360 "[''out'']" double_world double_w1 double_tmp double_w2 "''u''"
        "[720]" "[480, 720, 1080]" double_w3 True "[(10, 30)]" "''mp4''"]
      double_deps double_mkdir double_mkdtemp double_heights q2 n2
    by blast
  have c: "trace (rmtree double_tmp double_w3)
     = [MkdirP [''out''], Mkdtemp double_tmp, Exec (inspect_cmd ''u''), Rmtree double_tmp]"
    by code_simp
  have d: "fst (clip_url double_env ''u'' [(10, 30)] [''out''] True ''mp4'' 1080 double_world)
     \<noteq> Inl (QualityUnavailable 1080 [480, 720, 1080])"
    using quality_check[of double_env 1080 "[''out'']" double_world double_w1 double_tmp double_w2 "''u''"
        "[720]" "[480, 720, 1080]" double_w3 True "[(10, 30)]" "''mp4''"]
      double_deps double_mkdir double_mkdtemp double_heights q1 n1 m2
    by blast
  have e: "fst (clip_url double_env ''u'' [(10, 30)] [''out''] True ''mp4'' 1080 double_world)
     = Inr [[''out'', ''clip_10_30_20240101_120000_000000.mp4'']]"
    by code_simp
  show ?thesis
    by (intro conjI double_deps double_mkdir double_mkdtemp double_heights a b c d e)
qed

text \<open>
  C6: after the download, in fast-path mode, \<open>clip_url\<close> compares the extension of the
  retrieved file (the text after the last dot of its name) with the output format and
  fails with \<open>OutputFormatMismatch\<close> when they differ; then no process runs after the
  download: no artifact is made and nothing is remuxed. When they agree, and always in
  re-encode mode, whatever the extension, the job goes on with the extraction of the ranges.
\<close>

theorem output_format_check:
  "(ensure_dependencies env = Inr () \<and> 0 < q \<and> mkdir_p outdir w = (Inr (), w1) \<and>
    mkdtemp env outdir w1 = (tmp, w2) \<and>
    available_heights env url w2 = (Inr (h264, allh), w3) \<and>
    q \<in> set (if reencode then allh else h264) \<and>
    download_source env url tmp (fst (format_selector q reencode))
      (snd (format_selector q reencode)) w3 = (Inr source, w4)
    \<longrightarrow>
      (\<not> reencode \<and> lstrip_dot (path_suffix source) \<noteq> fmt \<longrightarrow>
         clip_url env url ranges outdir reencode fmt q w
           = (Inl (OutputFormatMismatch (lstrip_dot (path_suffix source)) fmt), rmtree tmp w4) \<and>
         trace (rmtree tmp w4)
           = trace w @ [MkdirP outdir, Mkdtemp tmp, Exec (inspect_cmd url),
               Exec (download_cmd url tmp (fst (format_selector q reencode))
                       (snd (format_selector q reencode))),
               Rmtree tmp]) \<and>
      (reencode \<or> lstrip_dot (path_suffix source) = fmt \<longrightarrow>
         clip_url env url ranges outdir reencode fmt q w
           = (fst (clip_loop env source outdir (now_stamp env) fmt reencode ranges [] w4),
              rmtree tmp (snd (clip_loop env source outdir (now_stamp env) fmt reencode ranges [] w4)))) \<and>
      lstrip_dot (path_suffix source)
        = rev (takeWhile (\<lambda>c. c \<noteq> CHR ''.'') (rev (last source)))) \<and>
   lstrip_dot (path_suffix [''out'', ''youtubeclipper_k3x9'', ''source.webm'']) = ''webm''"
proof -
  have c1: "ensure_dependencies env = Inr () \<and> 0 < q \<and> mkdir_p outdir w = (Inr (), w1) \<and>
    mkdtemp env outdir w1 = (tmp, w2) \<and>
    available_heights env url w2 = (Inr (h264, allh), w3) \<and>
    q \<in> set (if reencode then allh else h264) \<and>
    download_source env url tmp (fst (format_selector q reencode))
      (snd (format_selector q reencode)) w3 = (Inr source, w4)
    \<longrightarrow>
      (\<not> reencode \<and> lstrip_dot (path_suffix source) \<noteq> fmt \<longrightarrow>
         clip_url env url ranges outdir reencode fmt q w
           = (Inl (OutputFormatMismatch (lstrip_dot (path_suffix source)) fmt), rmtree tmp w4) \<and>
         trace (rmtree tmp w4)
           = trace w @ [MkdirP outdir, Mkdtemp tmp, Exec (inspect_cmd url),
               Exec (download_cmd url tmp (fst (format_selector q reencode))
                       (snd (format_selector q reencode))),
               Rmtree tmp]) \<and>
      (reencode \<or> lstrip_dot (path_suffix source) = fmt \<longrightarrow>
         clip_url env url ranges outdir reencode fmt q w
           = (fst (clip_loop env source outdir (now_stamp env) fmt reencode ranges [] w4),
              rmtree tmp (snd (clip_loop env source outdir (now_stamp env) fmt reencode ranges [] w4)))) \<and>
      lstrip_dot (path_suffix source)
        = rev (takeWhile (\<lambda>c. c \<noteq> CHR ''.'') (rev (last source)))"
  proof
    assume h: "ensure_dependencies env = Inr () \<and> 0 < q \<and> mkdir_p outdir w = (Inr (), w1) \<and>
      mkdtemp env outdir w1 = (tmp, w2) \<and>
      available_heights env url w2 = (Inr (h264, allh), w3) \<and>
      q \<in> set (if reencode then allh else h264) \<and>
      download_source env url tmp (fst (format_selector q reencode))
        (snd (format_selector q reencode)) w3 = (Inr source, w4)"
    then have h1: "ensure_dependencies env = Inr ()" and h2: "0 < q"
      and h3: "mkdir_p outdir w = (Inr (), w1)" and h4: "mkdtemp env outdir w1 = (tmp, w2)"
      and h5: "available_heights env url w2 = (Inr (h264, allh), w3)"
      and h6: "q \<in> set (if reencode then allh else h264)"
      and h7: "download_source env url tmp (fst (format_selector q reencode))
        (snd (format_selector q reencode)) w3 = (Inr source, w4)" by simp_all
    note u = clip_url_after_query[OF h1 h2 h3 h4 h5, of ranges reencode fmt]
    have t4: "trace w4 = trace w @ [MkdirP outdir, Mkdtemp tmp, Exec (inspect_cmd url),
           Exec (download_cmd url tmp (fst (format_selector q reencode)) (snd (format_selector q reencode)))]"
      using h3 h4 h5 h7 by (rule trace_after_download)
    have a: "\<not> reencode \<and> lstrip_dot (path_suffix source) \<noteq> fmt \<longrightarrow>
         clip_url env url ranges outdir reencode fmt q w
           = (Inl (OutputFormatMismatch (lstrip_dot (path_suffix source)) fmt), rmtree tmp w4) \<and>
         trace (rmtree tmp w4)
           = trace w @ [MkdirP outdir, Mkdtemp tmp, Exec (inspect_cmd url),
               Exec (download_cmd url tmp (fst (format_selector q reencode))
                       (snd (format_selector q reencode))),
               Rmtree tmp]"
      using u h6 h7 t4 by (cases reencode) (simp_all add: rmtree_trace)
    have b: "reencode \<or> lstrip_dot (path_suffix source) = fmt \<longrightarrow>
         clip_url env url ranges outdir reencode fmt q w
           = (fst (clip_loop env source outdir (now_stamp env) fmt reencode ranges [] w4),
              rmtree tmp (snd (clip_loop env source outdir (now_stamp env) fmt reencode ranges [] w4)))"
      using u h6 h7 by (cases reencode) auto
    have c: "lstrip_dot (path_suffix source)
        = rev (takeWhile (\<lambda>c. c \<noteq> CHR ''.'') (rev (last source)))"
      using download_source_inside[OF h7] by (intro source_suffix) simp_all
    show "(\<not> reencode \<and> lstrip_dot (path_suffix source) \<noteq> fmt \<longrightarrow>
         clip_url env url ranges outdir reencode fmt q w
           = (Inl (OutputFormatMismatch (lstrip_dot (path_suffix source)) fmt), rmtree tmp w4) \<and>
         trace (rmtree tmp w4)
           = trace w @ [MkdirP outdir, Mkdtemp tmp, Exec (inspect_cmd url),
               Exec (download_cmd url tmp (fst (format_selector q reencode))
                       (snd (format_selector q reencode))),
               Rmtree tmp]) \<and>
      (reencode \<or> lstrip_dot (path_suffix source) = fmt \<longrightarrow>
         clip_url env url ranges outdir reencode fmt q w
           = (fst (clip_loop env source outdir (now_stamp env) fmt reencode ranges [] w4),
              rmtree tmp (snd (clip_loop env source outdir (now_stamp env) fmt reencode ranges [] w4)))) \<and>
      lstrip_dot (path_suffix source)
        = rev (takeWhile (\<lambda>c. c \<noteq> CHR ''.'') (rev (last source)))"
      by (intro conjI a b c)
  qed
  have c2: "lstrip_dot (path_suffix [''out'', ''youtubeclipper_k3x9'', ''source.webm'']) = ''webm''"
    by code_simp
  show ?thesis by (intro conjI c1 c2)
qed

theorem output_format_check_witness:
  "download_source double_env ''u'' double_tmp (fst (format_selector 720 False))
     (snd (format_selector 720 False)) double_w3
     = (Inr (double_tmp @ [''source.mp4'']), double_w4) \<and>
   lstrip_dot (path_suffix (double_tmp @ [''source.mp4''])) = ''mp4'' \<and>
   clip_url double_env ''u'' [(10, 30)] [''out''] False ''mkv'' 720 double_world
     = (Inl (OutputFormatMismatch ''mp4'' ''mkv''), rmtree double_tmp double_w4) \<and>
   fst (clip_url double_env ''u'' [(10, 30)] [''out''] False ''mp4'' 720 double_world)
     = Inr [[''out'', ''clip_10_30_20240101_120000_000000.mp4'']] \<and>
   download_source double_env ''u'' double_tmp (fst (format_selector 1080 True))
     (snd (format_selector 1080 True)) double_w3
     = (Inr (double_tmp @ [''source.webm'']), double_w4r) \<and>
   lstrip_dot (path_suffix (double_tmp @ [''source.webm''])) = ''webm'' \<and>
   fst (clip_url double_env ''u'' [(10, 30)] [''out''] True ''mp4'' 1080 double_world)
     = Inr [[''out'', ''clip_10_30_20240101_120000_000000.mp4'']]"
proof -
  have q1: "(0::int) < 720" and q2: "(0::int) < 1080" by simp_all
  have m1: "(720::int) \<in> set (if False then [480, 720, 1080] else [720])" by simp
  have m2: "(1080::int) \<in> set (if True then [480, 720, 1080] else [720])" by simp
  have s1: "lstrip_dot (path_suffix (double_tmp @ [''source.mp4''])) = ''mp4''" by code_simp
  have s2: "lstrip_dot (path_suffix (double_tmp @ [''source.webm''])) = ''webm''" by code_simp
  note f = output_format_check[of double_env 720 "[''out'']" double_world double_w1 double_tmp double_w2
      "''u''" "[720]" "[480, 720, 1080]" double_w3 False "double_tmp @ [''source.mp4'']" double_w4]
  note r = output_format_check[of double_env 1080 "[''out'']" double_world double_w1 double_tmp double_w2
      "''u''" "[720]" "[480, 720, 1080]" double_w3 True "double_tmp @ [''source.webm'']" double_w4r
      "''mp4''" "[(10, 30)]"]
  have ne: "lstrip_dot (path_suffix (double_tmp @ [''source.mp4''])) \<noteq> ''mkv''"
    using s1 by simp
  have "clip_url double_env ''u'' [(10, 30)] [''out''] False ''mkv'' 720 double_world
     = (Inl (OutputFormatMismatch (lstrip_dot (path_suffix (double_tmp @ [''source.mp4'']))) ''mkv''),
        rmtree double_tmp double_w4)"
    using f[of "''mkv''" "[(10, 30)]"] double_deps double_mkdir double_mkdtemp double_heights
      double_download q1 m1 ne
    by blast
  then have a: "clip_url double_env ''u'' [(10, 30)] [''out''] False ''mkv'' 720 double_world
     = (Inl (OutputFormatMismatch ''mp4'' ''mkv''), rmtree double_tmp double_w4)"
    using s1 by simp
  have l1: "fst (clip_loop double_env (double_tmp @ [''source.mp4'']) [''out''] (now_stamp double_env)
      ''mp4'' False [(10, 30)] [] double_w4) = Inr [[''out'', ''clip_10_30_20240101_120000_000000.mp4'']]"
    by code_simp
  have "clip_url double_env ''u'' [(10, 30)] [''out''] False ''mp4'' 720 double_world
     = (fst (clip_loop double_env (double_tmp @ [''source.mp4'']) [''out''] (now_stamp double_env)
              ''mp4'' False [(10, 30)] [] double_w4),
        rmtree double_tmp (snd (clip_loop double_env (double_tmp @ [''source.mp4'']) [''out'']
              (now_stamp double_env) ''mp4'' False [(10, 30)] [] double_w4)))"
    using f[of "''mp4''" "[(10, 30)]"] double_deps double_mkdir double_mkdtemp double_heights
      double_download q1 m1 s1
    by blast
  then have b: "fst (clip_url double_env ''u'' [(10, 30)] [''out''] False ''mp4'' 720 double_world)
     = Inr [[''out'', ''clip_10_30_20240101_120000_000000.mp4'']]"
    using l1 by simp
  have l2: "fst (clip_loop double_env (double_tmp @ [''source.webm'']) [''out''] (now_stamp double_env)
      ''mp4'' True [(10, 30)] [] double_w4r) = Inr [[''out'', ''clip_10_30_20240101_120000_000000.mp4'']]"
    by code_simp
  have "clip_url double_env ''u'' [(10, 30)] [''out''] True ''mp4'' 1080 double_world
     = (fst (clip_loop double_env (double_tmp @ [''source.webm'']) [''out''] (now_stamp double_env)
              ''mp4'' True [(10, 30)] [] double_w4r),
        rmtree double_tmp (snd (clip_loop double_env (double_tmp @ [''source.webm'']) [''out'']
              (now_stamp double_env) ''mp4'' True [(10, 30)] [] double_w4r)))"
    using r double_deps double_mkdir double_mkdtemp double_heights
      double_download_reencode q2 m2
    by blast
  then have c: "fst (clip_url double_env ''u'' [(10, 30)] [''out''] True ''mp4'' 1080 double_world)
     = Inr [[''out'', ''clip_10_30_20240101_120000_000000.mp4'']]"
    using l2 by simp
  show ?thesis by (intro conjI double_download s1 a b double_download_reencode s2 c)
qed

text \<open>
  C1: once the source is retrieved, \<open>clip_url\<close> runs the encoder on the ranges in input
  order: the processes run by the loop are the encoder commands of the first \<open>k\<close> ranges,
  each writing to the output directory joined with
  \<^verbatim>\<open>clip_<start>_<end>_<stamp>.<format>\<close>, where the stamp is the one time read at the start
  of the job. Either all ranges are done and the result is the list of these paths in
  order, or the job fails with the error of the first failing range (the output exists
  already, or the encoder failed) and nothing is run for a later range. The world at the
  end is the world the last extraction left, minus the workspace: no artifact path is
  touched by the clean-up, so what the earlier ranges produced stays.
\<close>

theorem clip_url_batch:
  "(ensure_dependencies env = Inr () \<and> 0 < q \<and> mkdir_p outdir w = (Inr (), w1) \<and>
    mkdtemp env outdir w1 = (tmp, w2) \<and>
    available_heights env url w2 = (Inr (h264, allh), w3) \<and>
    q \<in> set (if reencode then allh else h264) \<and>
    download_source env url tmp (fst (format_selector q reencode))
      (snd (format_selector q reencode)) w3 = (Inr source, w4) \<and>
    (reencode \<or> lstrip_dot (path_suffix source) = fmt) \<and>
    clip_loop env source outdir (now_stamp env) fmt reencode ranges [] w4 = (res, w5)
    \<longrightarrow>
      clip_url env url ranges outdir reencode fmt q w = (res, rmtree tmp w5) \<and>
      (\<exists>k\<le>length ranges.
         trace w5 = trace w4 @
           map (\<lambda>r. Exec (ffmpeg_cmd source (fst r) (snd r)
                            (clip_path outdir (now_stamp env) fmt r) reencode))
             (take k ranges) \<and>
         ((k = length ranges \<and> res = Inr (map (clip_path outdir (now_stamp env) fmt) ranges)) \<or>
          (k < length ranges \<and>
           res = Inl (OutputAlreadyExists (clip_path outdir (now_stamp env) fmt (ranges ! k))) \<and>
           path_exists (files w5) (clip_path outdir (now_stamp env) fmt (ranges ! k))) \<or>
          (0 < k \<and> res = Inl ExtractionFailed))) \<and>
      trace (rmtree tmp w5) = trace w5 @ [Rmtree tmp] \<and>
      (\<forall>r. map_of (files (rmtree tmp w5)) (clip_path outdir (now_stamp env) fmt r)
             = map_of (files w5) (clip_path outdir (now_stamp env) fmt r))) \<and>
   (clip_loop env source outdir stamp fmt reencode pre outs w = (Inr outs1, wk) \<and>
    run_ffmpeg env source (fst r) (snd r) (clip_path outdir stamp fmt r) reencode wk = (Inl e, wx)
    \<longrightarrow>
      outs1 = outs @ map (clip_path outdir stamp fmt) pre \<and>
      clip_loop env source outdir stamp fmt reencode (pre @ r # post) outs w = (Inl e, wx)) \<and>
   (clip_url env url ranges outdir reencode fmt q w = (Inr paths, w')
    \<longrightarrow> paths = map (clip_path outdir (now_stamp env) fmt) ranges) \<and>
   clip_path outdir stamp fmt (a, b)
     = outdir @ [''clip_'' @ str_int a @ ''_'' @ str_int b @ ''_'' @ stamp @ ''.'' @ fmt]"
proof -
  have c1: "ensure_dependencies env = Inr () \<and> 0 < q \<and> mkdir_p outdir w = (Inr (), w1) \<and>
    mkdtemp env outdir w1 = (tmp, w2) \<and>
    available_heights env url w2 = (Inr (h264, allh), w3) \<and>
    q \<in> set (if reencode then allh else h264) \<and>
    download_source env url tmp (fst (format_selector q reencode))
      (snd (format_selector q reencode)) w3 = (Inr source, w4) \<and>
    (reencode \<or> lstrip_dot (path_suffix source) = fmt) \<and>
    clip_loop env source outdir (now_stamp env) fmt reencode ranges [] w4 = (res, w5)
    \<longrightarrow>
      clip_url env url ranges outdir reencode fmt q w = (res, rmtree tmp w5) \<and>
      (\<exists>k\<le>length ranges.
         trace w5 = trace w4 @
           map (\<lambda>r. Exec (ffmpeg_cmd source (fst r) (snd r)
                            (clip_path outdir (now_stamp env) fmt r) reencode))
             (take k ranges) \<and>
         ((k = length ranges \<and> res = Inr (map (clip_path outdir (now_stamp env) fmt) ranges)) \<or>
          (k < length ranges \<and>
           res = Inl (OutputAlreadyExists (clip_path outdir (now_stamp env) fmt (ranges ! k))) \<and>
           path_exists (files w5) (clip_path outdir (now_stamp env) fmt (ranges ! k))) \<or>
          (0 < k \<and> res = Inl ExtractionFailed))) \<and>
      trace (rmtree tmp w5) = trace w5 @ [Rmtree tmp] \<and>
      (\<forall>r. map_of (files (rmtree tmp w5)) (clip_path outdir (now_stamp env) fmt r)
             = map_of (files w5) (clip_path outdir (now_stamp env) fmt r))"
  proof
    assume h: "ensure_dependencies env = Inr () \<and> 0 < q \<and> mkdir_p outdir w = (Inr (), w1) \<and>
      mkdtemp env outdir w1 = (tmp, w2) \<and>
      available_heights env url w2 = (Inr (h264, allh), w3) \<and>
      q \<in> set (if reencode then allh else h264) \<and>
      download_source env url tmp (fst (format_selector q reencode))
        (snd (format_selector q reencode)) w3 = (Inr source, w4) \<and>
      (reencode \<or> lstrip_dot (path_suffix source) = fmt) \<and>
      clip_loop env source outdir (now_stamp env) fmt reencode ranges [] w4 = (res, w5)"
    then have h1: "ensure_dependencies env = Inr ()" and h2: "0 < q"
      and h3: "mkdir_p outdir w = (Inr (), w1)" and h4: "mkdtemp env outdir w1 = (tmp, w2)"
      and h5: "available_heights env url w2 = (Inr (h264, allh), w3)"
      and h6: "q \<in> set (if reencode then allh else h264)"
      and h7: "download_source env url tmp (fst (format_selector q reencode))
        (snd (format_selector q reencode)) w3 = (Inr source, w4)"
      and h8: "reencode \<or> lstrip_dot (path_suffix source) = fmt"
      and h9: "clip_loop env source outdir (now_stamp env) fmt reencode ranges [] w4 = (res, w5)"
      by simp_all
    note u = clip_url_after_query[OF h1 h2 h3 h4 h5, of ranges reencode fmt]
    have a: "clip_url env url ranges outdir reencode fmt q w = (res, rmtree tmp w5)"
      using u h6 h7 h8 h9 by (cases reencode) auto
    have b: "\<exists>k\<le>length ranges.
         trace w5 = trace w4 @
           map (\<lambda>r. Exec (ffmpeg_cmd source (fst r) (snd r)
                            (clip_path outdir (now_stamp env) fmt r) reencode))
             (take k ranges) \<and>
         ((k = length ranges \<and> res = Inr (map (clip_path outdir (now_stamp env) fmt) ranges)) \<or>
          (k < length ranges \<and>
           res = Inl (OutputAlreadyExists (clip_path outdir (now_stamp env) fmt (ranges ! k))) \<and>
           path_exists (files w5) (clip_path outdir (now_stamp env) fmt (ranges ! k))) \<or>
          (0 < k \<and> res = Inl ExtractionFailed))"
      using clip_loop_run[OF h9] by simp
    have c: "trace (rmtree tmp w5) = trace w5 @ [Rmtree tmp]" by (rule rmtree_trace)
    have tmp: "tmp = joinpath outdir (''youtubeclipper_'' @ temp_name env)"
      using h4 by (simp add: mkdtemp_eq)
    have d: "\<forall>r. map_of (files (rmtree tmp w5)) (clip_path outdir (now_stamp env) fmt r)
             = map_of (files w5) (clip_path outdir (now_stamp env) fmt r)"
      unfolding tmp by (intro allI rmtree_keeps clip_path_outside)
    show "clip_url env url ranges outdir reencode fmt q w = (res, rmtree tmp w5) \<and>
      (\<exists>k\<le>length ranges.
         trace w5 = trace w4 @
           map (\<lambda>r. Exec (ffmpeg_cmd source (fst r) (snd r)
                            (clip_path outdir (now_stamp env) fmt r) reencode))
             (take k ranges) \<and>
         ((k = length ranges \<and> res = Inr (map (clip_path outdir (now_stamp env) fmt) ranges)) \<or>
          (k < length ranges \<and>
           res = Inl (OutputAlreadyExists (clip_path outdir (now_stamp env) fmt (ranges ! k))) \<and>
           path_exists (files w5) (clip_path outdir (now_stamp env) fmt (ranges ! k))) \<or>
          (0 < k \<and> res = Inl ExtractionFailed))) \<and>
      trace (rmtree tmp w5) = trace w5 @ [Rmtree tmp] \<and>
      (\<forall>r. map_of (files (rmtree tmp w5)) (clip_path outdir (now_stamp env) fmt r)
             = map_of (files w5) (clip_path outdir (now_stamp env) fmt r))"
      using a b c d by (intro conjI)
  qed
  have c2: "clip_loop env source outdir stamp fmt reencode pre outs w = (Inr outs1, wk) \<and>
    run_ffmpeg env source (fst r) (snd r) (clip_path outdir stamp fmt r) reencode wk = (Inl e, wx)
    \<longrightarrow>
      outs1 = outs @ map (clip_path outdir stamp fmt) pre \<and>
      clip_loop env source outdir stamp fmt reencode (pre @ r # post) outs w = (Inl e, wx)"
    using clip_loop_fail_at by blast
  have c3: "clip_url env url ranges outdir reencode fmt q w = (Inr paths, w')
    \<longrightarrow> paths = map (clip_path outdir (now_stamp env) fmt) ranges"
    using clip_url_success_outputs by blast
  have c4: "clip_path outdir stamp fmt (a, b)
     = outdir @ [''clip_'' @ str_int a @ ''_'' @ str_int b @ ''_'' @ stamp @ ''.'' @ fmt]"
    by (simp add: clip_path_def joinpath_def)
  show ?thesis by (intro conjI c1 c2 c3 c4)
qed

theorem clip_url_batch_witness:
  "download_source double_env ''u'' double_tmp (fst (format_selector 1080 True))
     (snd (format_selector 1080 True)) double_w3
     = (Inr (double_tmp @ [''source.webm'']), double_w4r) \<and>
   fst (clip_url double_env ''u'' [(10, 30), (99, 120), (200, 210)] [''out''] True ''mp4'' 1080 double_world)
     = Inl ExtractionFailed \<and>
   trace (snd (clip_url double_env ''u'' [(10, 30), (99, 120), (200, 210)] [''out''] True ''mp4'' 1080
                 double_world))
     = trace double_w4r @
       [Exec (ffmpeg_cmd (double_tmp @ [''source.webm'']) 10 30
                [''out'', ''clip_10_30_20240101_120000_000000.mp4''] True),
        Exec (ffmpeg_cmd (double_tmp @ [''source.webm'']) 99 120
                [''out'', ''clip_99_120_20240101_120000_000000.mp4''] True),
        Rmtree double_tmp] \<and>
   map_of (files (snd (clip_url double_env ''u'' [(10, 30), (99, 120), (200, 210)] [''out''] True ''mp4''
                         1080 double_world)))
      [''out'', ''clip_10_30_20240101_120000_000000.mp4'']
     = Some (File ''clip'') \<and>
   \<not> path_exists
       (files (snd (clip_url double_env ''u'' [(10, 30), (99, 120), (200, 210)] [''out''] True ''mp4''
                      1080 double_world)))
       [''out'', ''clip_200_210_20240101_120000_000000.mp4''] \<and>
   fst (clip_loop double_env (double_tmp @ [''source.webm'']) [''out''] ''s'' ''mp4'' True
          ([(10, 30)] @ (99, 120) # [(200, 210)]) [] double_w4r)
     = Inl ExtractionFailed \<and>
   fst (clip_url double_env ''u'' [(10, 30), (45, 50)] [''out''] False ''mp4'' 720 double_world)
     = Inr [[''out'', ''clip_10_30_20240101_120000_000000.mp4''],
            [''out'', ''clip_45_50_20240101_120000_000000.mp4'']]"
proof -
  let ?src = "double_tmp @ [''source.webm'']"
  let ?rs = "[(10, 30), (99, 120), (200, 210)] :: (int \<times> int) list"
  let ?L = "clip_loop double_env ?src [''out''] (now_stamp double_env) ''mp4'' True ?rs [] double_w4r"
  let ?run = "clip_url double_env ''u'' ?rs [''out''] True ''mp4'' 1080 double_world"
  have q: "(0::int) < 1080" by simp
  have m: "(1080::int) \<in> set (if True then [480, 720, 1080] else [720])" by simp
  have h8: "True \<or> lstrip_dot (path_suffix ?src) = ''mp4''" by simp
  have h9: "?L = (fst ?L, snd ?L)" by simp
  have x: "?run = (fst ?L, rmtree double_tmp (snd ?L))"
    using clip_url_batch[where env = double_env and q = 1080 and outdir = "[''out'']" and w = double_world
        and ?w1.0 = double_w1 and tmp = double_tmp and ?w2.0 = double_w2 and url = "''u''"
        and ?h264.0 = "[720]" and allh = "[480, 720, 1080]" and ?w3.0 = double_w3 and reencode = True
        and source = ?src and ?w4.0 = double_w4r and fmt = "''mp4''" and ranges = ?rs
        and res = "fst ?L" and ?w5.0 = "snd ?L"]
      double_deps q double_mkdir double_mkdtemp double_heights m double_download_reencode h8 h9
    by blast
  have e1: "fst ?L = Inl ExtractionFailed" by code_simp
  have e2: "trace (rmtree double_tmp (snd ?L))
     = trace double_w4r @
       [Exec (ffmpeg_cmd ?src 10 30 [''out'', ''clip_10_30_20240101_120000_000000.mp4''] True),
        Exec (ffmpeg_cmd ?src 99 120 [''out'', ''clip_99_120_20240101_120000_000000.mp4''] True),
        Rmtree double_tmp]"
    by code_simp
  have e3: "map_of (files (rmtree double_tmp (snd ?L))) [''out'', ''clip_10_30_20240101_120000_000000.mp4'']
     = Some (File ''clip'')"
    by code_simp
  have e4: "\<not> path_exists (files (rmtree double_tmp (snd ?L)))
       [''out'', ''clip_200_210_20240101_120000_000000.mp4'']"
    by code_simp
  have r1: "fst ?run = Inl ExtractionFailed" using x e1 by simp
  have r2: "trace (snd ?run)
     = trace double_w4r @
       [Exec (ffmpeg_cmd ?src 10 30 [''out'', ''clip_10_30_20240101_120000_000000.mp4''] True),
        Exec (ffmpeg_cmd ?src 99 120 [''out'', ''clip_99_120_20240101_120000_000000.mp4''] True),
        Rmtree double_tmp]"
    using x e2 by simp
  have r3: "map_of (files (snd ?run)) [''out'', ''clip_10_30_20240101_120000_000000.mp4'']
     = Some (File ''clip'')"
    using x e3 by simp
  have r4: "\<not> path_exists (files (snd ?run)) [''out'', ''clip_200_210_20240101_120000_000000.mp4'']"
    using x e4 by simp
  let ?P = "clip_loop double_env ?src [''out''] ''s'' ''mp4'' True [(10, 30)] [] double_w4r"
  let ?r = "(99, 120) :: int \<times> int"
  let ?F = "run_ffmpeg double_env ?src (fst ?r) (snd ?r) (clip_path [''out''] ''s'' ''mp4'' ?r) True (snd ?P)"
  have p1: "fst ?P = Inr [[''out'', ''clip_10_30_s.mp4'']]" by code_simp
  then have p1': "?P = (Inr [[''out'', ''clip_10_30_s.mp4'']], snd ?P)" by (metis prod.collapse)
  have p2: "fst ?F = Inl ExtractionFailed" by code_simp
  then have p2': "?F = (Inl ExtractionFailed, snd ?F)" by (metis prod.collapse)
  have "clip_loop double_env ?src [''out''] ''s'' ''mp4'' True ([(10, 30)] @ (99, 120) # [(200, 210)]) []
      double_w4r = (Inl ExtractionFailed, snd ?F)"
    using clip_url_batch[where env = double_env and source = ?src and outdir = "[''out'']"
        and stamp = "''s''" and fmt = "''mp4''" and reencode = True and pre = "[(10, 30)]" and outs = "[]"
        and w = double_w4r and ?outs1.0 = "[[''out'', ''clip_10_30_s.mp4'']]" and wk = "snd ?P"
        and r = ?r and e = ExtractionFailed and wx = "snd ?F" and post = "[(200, 210)]"]
      p1' p2'
    by blast
  then have r5: "fst (clip_loop double_env ?src [''out''] ''s'' ''mp4'' True
      ([(10, 30)] @ (99, 120) # [(200, 210)]) [] double_w4r) = Inl ExtractionFailed"
    by simp
  let ?ok = "clip_url double_env ''u'' [(10, 30), (45, 50)] [''out''] False ''mp4'' 720 double_world"
  have o1: "fst ?ok = Inr [[''out'', ''clip_10_30_20240101_120000_000000.mp4''],
            [''out'', ''clip_45_50_20240101_120000_000000.mp4'']]"
    by code_simp
  then have o1': "?ok = (Inr [[''out'', ''clip_10_30_20240101_120000_000000.mp4''],
            [''out'', ''clip_45_50_20240101_120000_000000.mp4'']], snd ?ok)"
    by (metis prod.collapse)
  have "[[''out'', ''clip_10_30_20240101_120000_000000.mp4''],
            [''out'', ''clip_45_50_20240101_120000_000000.mp4'']]
      = map (clip_path [''out''] (now_stamp double_env) ''mp4'') [(10, 30), (45, 50)]"
    by (rule clip_url_batch[THEN conjunct2, THEN conjunct2, THEN conjunct1, THEN mp, OF o1'])
  show ?thesis by (intro conjI double_download_reencode r1 r2 r3 r4 r5 o1)
qed

end
